theory Spec2Isabelle
  imports Main "HOL-Library.Char_ord" "HOL-Library.List_Lexorder"
begin

section \<open>Daily job search: a shallow embedding of \<^verbatim>\<open>job_searcher.py\<close>\<close>

text \<open>
  The program reads its configuration from the environment, fetches the list of links it
  has already mailed from a file in a GitHub repository, runs a fixed list of Google
  Custom Search queries, mails the results whose link is new, and writes the enlarged
  list back. Everything the program does to the outside (HTTP requests, the SMTP session)
  is recorded as a list of events, in the order the calls are made; everything the
  outside answers is a field of the record \<open>world\<close>. A raised exception is the left
  summand of the result. The \<^verbatim>\<open>print\<close> calls are left out.

  Python strings are modelled as \<open>string\<close>, the list of their UTF-8 bytes, ordered
  lexicographically: on UTF-8 this is the order of the code points, which is how Python
  compares strings.
\<close>

subsection \<open>Configuration\<close>

text \<open>
  The module-level variables read from \<^verbatim>\<open>os.environ\<close>. A variable that is not set is
  \<open>None\<close>. \<^verbatim>\<open>SMTP_PORT\<close> and \<^verbatim>\<open>FILE_PATH\<close> have defaults and are always set.
\<close>

record config =
  GCP_API_KEY :: "string option"
  CSE_ID :: "string option"
  GITHUB_REPOSITORY :: "string option"
  GITHUB_TOKEN :: "string option"
  FROM_EMAIL :: "string option"
  TO_EMAIL :: "string option"
  SMTP_HOST :: "string option"
  SMTP_PORT :: int
  SMTP_USER :: "string option"
  SMTP_PASS :: "string option"
  SENDGRID_API_KEY :: "string option"
  FILE_PATH :: string

definition QUERIES :: "string list" where
  \<open>QUERIES =
    [''("entry level" OR "junior") "data analyst" ("startup" OR "early-stage" OR "seed")'',
     ''("entry level" OR "junior") "software engineer" ("startup" OR "early-stage" OR "seed")'']\<close>

text \<open>Truth value of an optional string: \<^verbatim>\<open>None\<close> and \<^verbatim>\<open>""\<close> are false.\<close>

fun truthy :: "string option \<Rightarrow> bool" where
  "truthy None = False"
| "truthy (Some s) = (s \<noteq> [])"

text \<open>An optional string inside an f-string: \<^verbatim>\<open>None\<close> prints as \<^verbatim>\<open>None\<close>.\<close>

fun fmt :: "string option \<Rightarrow> string" where
  "fmt None = ''None''"
| "fmt (Some s) = s"

subsection \<open>Exceptions, responses, events\<close>

datatype exn =
    RuntimeError string
  | HTTPError nat
  | ConnectionError
  | InvalidJSON
  | DecodeError
  | SMTPException
  | TypeError
  | AttributeError

text \<open>
  What an HTTP call gives: the call itself raises (no connection, timeout), or there is a
  response with a status code and a body; the body is \<open>None\<close> when \<^verbatim>\<open>.json()\<close> would
  raise on it.
\<close>

datatype 'b http = Unreachable | Reply nat "'b option"

text \<open>\<^verbatim>\<open>Response.raise_for_status\<close> of the requests library raises on 4xx and 5xx only.\<close>

definition raise_for_status :: "nat \<Rightarrow> exn + unit" where
  "raise_for_status status_code =
     (if 400 \<le> status_code \<and> status_code < 600 then Inl (HTTPError status_code) else Inr ())"

text \<open>One result item of the search API: each of the three fields may be missing.\<close>

record item =
  title :: "string option"
  snippet :: "string option"
  link :: "string option"

text \<open>
  The body of a search answer is whatever JSON the provider sent, and \<^verbatim>\<open>run\<close> iterates
  the value of its \<^verbatim>\<open>items\<close> key unchecked. An element of that value is a JSON object
  (\<^verbatim>\<open>it.get\<close> works) or anything else (\<^verbatim>\<open>it.get\<close> raises \<^verbatim>\<open>AttributeError\<close>). The value
  itself cannot be iterated (\<^verbatim>\<open>null\<close>, a number, a boolean: the \<^verbatim>\<open>for\<close> raises
  \<^verbatim>\<open>TypeError\<close>) or it yields elements: a list yields its elements, a string its
  characters and an object its keys, which are not objects. The decoded body is not a
  JSON object (\<^verbatim>\<open>data.get\<close> raises \<^verbatim>\<open>AttributeError\<close>), or it is one, with or without
  the \<^verbatim>\<open>items\<close> key.
\<close>

datatype element = Obj item | NotObj

datatype pyitems = NotIterable | Elements "element list"

datatype payload = NotObject | Object "pyitems option"

text \<open>An entry of \<^verbatim>\<open>found_results\<close>: the item's fields and the query that returned it.\<close>

record result = item +
  query :: string

text \<open>
  What \<^verbatim>\<open>json.loads(base64.b64decode(content).decode("utf-8"))\<close> does on the content of
  the repository file: decoding base64 or UTF-8 raises, parsing the JSON raises, the value
  is not a list, or it is a list (of strings, by the annotation \<^verbatim>\<open>List[str]\<close>).
  A missing \<^verbatim>\<open>content\<close> field defaults to the empty string, on which
  \<^verbatim>\<open>json.loads\<close> raises: that is \<open>BadJSON\<close>.
\<close>

datatype decoded = BadEncoding | BadJSON | NotAList | StrList "string list"

text \<open>The JSON object of the contents API: the blob's revision and its content.\<close>

record repo_obj =
  sha :: "string option"
  content :: decoded

datatype event =
    StoreGet string "string option"
  | SearchCall string string string nat
  | SmtpSend string string string
  | SendGridPost string string string
  | StorePut string "string list" string "string option"

text \<open>
  \<open>StoreGet url token\<close> and \<open>StorePut url links message sha\<close> are the GET and the PUT
  on the contents API (\<open>links\<close> is the list whose pretty-printed JSON is the new
  content, \<open>sha\<close> the revision sent along, if any); \<open>SearchCall key cx q start\<close> is one
  search request; \<open>SmtpSend subject html text\<close> and \<open>SendGridPost subject html text\<close>
  are the attempts to deliver the mail.
\<close>

record world =
  store_get :: "repo_obj http"
  search_api :: "string \<Rightarrow> nat \<Rightarrow> payload http"
  smtp_session :: "exn option"
  sendgrid_post :: "unit http"
  store_put :: "unit http"
  local_date :: string
  utc_date :: string
  utc_iso :: string

text \<open>
  \<open>search_api w q start\<close> answers the search for \<open>q\<close>.
  \<open>smtp_session w\<close> is \<open>None\<close> when the whole SMTP session (connect, STARTTLS, login,
  sendmail) goes through. The three dates are what the clock gives, as formatted by the
  program.
\<close>

subsection \<open>Google Custom Search\<close>

definition google_custom_search ::
  "config \<Rightarrow> world \<Rightarrow> string \<Rightarrow> nat \<Rightarrow> (exn + pyitems) \<times> event list" where
  "google_custom_search cfg w q start =
     (if \<not> truthy (GCP_API_KEY cfg) \<or> \<not> truthy (CSE_ID cfg)
      then (Inl (RuntimeError ''GCP_API_KEY and CSE_ID must be set.''), [])
      else
        (case search_api w q start of
           Unreachable \<Rightarrow> Inl ConnectionError
         | Reply status_code body \<Rightarrow>
             (case raise_for_status status_code of
                Inl e \<Rightarrow> Inl e
              | Inr _ \<Rightarrow>
                  (case body of
                     None \<Rightarrow> Inl InvalidJSON
                   | Some NotObject \<Rightarrow> Inl AttributeError
                   | Some (Object items) \<Rightarrow>
                       Inr (case items of None \<Rightarrow> Elements [] | Some v \<Rightarrow> v))),
         [SearchCall (fmt (GCP_API_KEY cfg)) (fmt (CSE_ID cfg)) q start]))"

subsection \<open>The repository file\<close>

definition api_url :: "config \<Rightarrow> string \<Rightarrow> string" where
  "api_url cfg path =
     ''https://api.github.com/repos/'' @ fmt (GITHUB_REPOSITORY cfg) @ ''/contents/'' @ path"

definition auth_header :: "config \<Rightarrow> string option" where
  "auth_header cfg =
     (if truthy (GITHUB_TOKEN cfg) then Some (''token '' @ fmt (GITHUB_TOKEN cfg)) else None)"

definition get_repo_file ::
  "config \<Rightarrow> world \<Rightarrow> string \<Rightarrow> (exn + repo_obj option) \<times> event list" where
  "get_repo_file cfg w path =
     (case store_get w of
        Unreachable \<Rightarrow> Inl ConnectionError
      | Reply status_code body \<Rightarrow>
          if status_code = 200
          then (case body of None \<Rightarrow> Inl InvalidJSON | Some obj \<Rightarrow> Inr (Some obj))
          else if status_code = 404 then Inr None
          else (case raise_for_status status_code of Inl e \<Rightarrow> Inl e | Inr _ \<Rightarrow> Inr None),
      [StoreGet (api_url cfg path) (auth_header cfg)])"

definition create_or_update_repo_file ::
  "config \<Rightarrow> world \<Rightarrow> string \<Rightarrow> string list \<Rightarrow> string \<Rightarrow> string option
     \<Rightarrow> (exn + unit) \<times> event list" where
  "create_or_update_repo_file cfg w path content_list message sha_arg =
     (case store_put w of
        Unreachable \<Rightarrow> Inl ConnectionError
      | Reply status_code body \<Rightarrow>
          (case raise_for_status status_code of
             Inl e \<Rightarrow> Inl e
           | Inr _ \<Rightarrow> (case body of None \<Rightarrow> Inl InvalidJSON | Some _ \<Rightarrow> Inr ())),
      [StorePut (api_url cfg path) content_list message
         (if truthy sha_arg then sha_arg else None)])"

subsection \<open>Sending the mail\<close>

definition send_email_smtp ::
  "config \<Rightarrow> world \<Rightarrow> string \<Rightarrow> string \<Rightarrow> string \<Rightarrow> (exn + unit) \<times> event list" where
  "send_email_smtp cfg w subject html_body text_body =
     (if \<not> truthy (SMTP_HOST cfg) \<or> \<not> truthy (SMTP_USER cfg) \<or> \<not> truthy (SMTP_PASS cfg)
      then (Inl (RuntimeError ''SMTP_HOST, SMTP_USER, SMTP_PASS must be set for SMTP sending.''), [])
      else
        (case smtp_session w of Some e \<Rightarrow> Inl e | None \<Rightarrow> Inr (),
         [SmtpSend subject html_body (if text_body = [] then ''See HTML body'' else text_body)]))"

definition send_email_sendgrid ::
  "config \<Rightarrow> world \<Rightarrow> string \<Rightarrow> string \<Rightarrow> string \<Rightarrow> (exn + unit) \<times> event list" where
  "send_email_sendgrid cfg w subject html_body text_body =
     (if \<not> truthy (SENDGRID_API_KEY cfg)
      then (Inl (RuntimeError ''SENDGRID_API_KEY must be set to use SendGrid.''), [])
      else
        (case sendgrid_post w of
           Unreachable \<Rightarrow> Inl ConnectionError
         | Reply status_code body \<Rightarrow> raise_for_status status_code,
         [SendGridPost subject html_body (if text_body = [] then ''See HTML body'' else text_body)]))"

definition send_email ::
  "config \<Rightarrow> world \<Rightarrow> string \<Rightarrow> string \<Rightarrow> string \<Rightarrow> (exn + unit) \<times> event list" where
  "send_email cfg w subject html_body text_body =
     (if truthy (SENDGRID_API_KEY cfg)
      then send_email_sendgrid cfg w subject html_body text_body
      else send_email_smtp cfg w subject html_body text_body)"

subsection \<open>Main flow\<close>

definition load_sent_links :: "config \<Rightarrow> world \<Rightarrow> (exn + string list) \<times> event list" where
  "load_sent_links cfg w =
     (case get_repo_file cfg w (FILE_PATH cfg) of
        (Inl e, evs) \<Rightarrow> (Inl e, evs)
      | (Inr None, evs) \<Rightarrow> (Inr [], evs)
      | (Inr (Some obj), evs) \<Rightarrow>
          (case content obj of
             BadEncoding \<Rightarrow> Inl DecodeError
           | BadJSON \<Rightarrow> Inr []
           | NotAList \<Rightarrow> Inr []
           | StrList data \<Rightarrow> Inr data,
           evs))"

definition commit_message :: "world \<Rightarrow> string" where
  "commit_message w = ''Update sent links at '' @ utc_iso w @ ''Z''"

definition save_sent_links ::
  "config \<Rightarrow> world \<Rightarrow> string list \<Rightarrow> string option \<Rightarrow> (exn + unit) \<times> event list" where
  "save_sent_links cfg w new_list sha_arg =
     create_or_update_repo_file cfg w (FILE_PATH cfg) new_list (commit_message w) sha_arg"

definition em_dash :: string where
  "em_dash = [CHR 0xE2, CHR 0x80, CHR 0x94]"

definition html_entry :: "result \<Rightarrow> string" where
  \<open>html_entry r =
     ''<li><strong>'' @ fmt (title r) @ ''</strong><br>''
     @ fmt (snippet r) @ ''<br>''
     @ ''<a href="'' @ fmt (link r) @ ''" target="_blank">'' @ fmt (link r)
     @ ''</a><br><small>query: '' @ query r @ ''</small></li><br>''\<close>

fun html_entries :: "string \<Rightarrow> result list \<Rightarrow> string" where
  "html_entries html [] = html"
| "html_entries html (r # rs) = html_entries (html @ html_entry r) rs"

definition build_email_html :: "world \<Rightarrow> result list \<Rightarrow> string" where
  "build_email_html w results =
     (let html = ''<h2>Job search results '' @ em_dash @ '' '' @ local_date w @ ''</h2>''
      in if results = [] then html @ ''<p>No new results.</p>''
         else html_entries (html @ ''<ol>'') results @ ''</ol>'')"

text \<open>The decimal digits of a number, as \<^verbatim>\<open>str\<close> prints it.\<close>

fun str_nat :: "nat \<Rightarrow> string" where
  "str_nat n =
     (if n < 10 then [char_of (48 + n)] else str_nat (n div 10) @ [char_of (48 + n mod 10)])"

declare str_nat.simps [simp del]

text \<open>The three variables of the search loop.\<close>

record scan =
  sent_set :: "string set"
  found_results :: "result list"
  added_links :: "string list"

text \<open>
  The inner loop, over the elements of what one query returned. It is outside the
  \<^verbatim>\<open>try\<close> of the search: an element that is not an object ends the run.
\<close>

fun items_loop :: "string \<Rightarrow> element list \<Rightarrow> scan \<Rightarrow> exn + scan" where
  "items_loop q [] st = Inr st"
| "items_loop q (NotObj # els) st = Inl AttributeError"
| "items_loop q (Obj it # els) st =
     (case link it of
        None \<Rightarrow> items_loop q els st
      | Some l \<Rightarrow>
          if l = [] then items_loop q els st
          else if l \<in> sent_set st then items_loop q els st
          else items_loop q els
                 \<lparr>sent_set = insert l (sent_set st),
                  found_results = found_results st
                    @ [\<lparr>title = title it, snippet = snippet it, link = Some l, query = q\<rparr>],
                  added_links = added_links st @ [l]\<rparr>)"

text \<open>\<^verbatim>\<open>for it in items\<close>: a value that cannot be iterated raises before the first round.\<close>

definition for_items :: "string \<Rightarrow> pyitems \<Rightarrow> scan \<Rightarrow> exn + scan" where
  "for_items q items st =
     (case items of NotIterable \<Rightarrow> Inl TypeError | Elements els \<Rightarrow> items_loop q els st)"

text \<open>
  The outer loop, over the queries: a search that raises counts as no items; an exception
  of the inner loop is not caught and ends the loop.
\<close>

fun queries_loop ::
  "config \<Rightarrow> world \<Rightarrow> string list \<Rightarrow> scan \<times> event list \<Rightarrow> (exn + scan) \<times> event list" where
  "queries_loop cfg w [] (st, evs) = (Inr st, evs)"
| "queries_loop cfg w (q # qs) (st, evs) =
     (case google_custom_search cfg w q 1 of
        (res, evs') \<Rightarrow>
          (let items = (case res of Inl e \<Rightarrow> Elements [] | Inr v \<Rightarrow> v)
           in case for_items q items st of
                Inl e \<Rightarrow> (Inl e, evs @ evs')
              | Inr st' \<Rightarrow> queries_loop cfg w qs (st', evs @ evs')))"

text \<open>
  Lines 189 to 198 of \<^verbatim>\<open>run\<close>: the links and the revision read from the fetched object.
  Here every exception of the decoding is caught.
\<close>

definition read_remote :: "repo_obj option \<Rightarrow> string list \<times> string option" where
  "read_remote remote_obj =
     (case remote_obj of
        None \<Rightarrow> ([], None)
      | Some obj \<Rightarrow>
          (case content obj of
             StrList existing_links \<Rightarrow> (existing_links, sha obj)
           | _ \<Rightarrow> ([], sha obj)))"

definition subject_line :: "world \<Rightarrow> nat \<Rightarrow> string" where
  "subject_line w n =
     ''Daily job search '' @ em_dash @ '' '' @ utc_date w @ '' '' @ em_dash @ '' ''
     @ str_nat n @ '' new''"

text \<open>
  \<^verbatim>\<open>run\<close>, for any list of queries; the result is the exception that ended the run, if
  any, and the events of the run in order.
\<close>

definition run_queries ::
  "config \<Rightarrow> string list \<Rightarrow> world \<Rightarrow> (exn + unit) \<times> event list" where
  "run_queries cfg qs w =
     (if \<not> truthy (GCP_API_KEY cfg) \<or> \<not> truthy (CSE_ID cfg)
      then (Inl (RuntimeError ''GCP_API_KEY and CSE_ID required.''), [])
      else if \<not> truthy (FROM_EMAIL cfg) \<or> \<not> truthy (TO_EMAIL cfg)
      then (Inl (RuntimeError ''FROM_EMAIL and TO_EMAIL must be set.''), [])
      else
        (case get_repo_file cfg w (FILE_PATH cfg) of
           (Inl e, evs0) \<Rightarrow> (Inl e, evs0)
         | (Inr remote_obj, evs0) \<Rightarrow>
             (case read_remote remote_obj of
                (existing_links, remote_sha) \<Rightarrow>
                  (case queries_loop cfg w qs
                          (\<lparr>sent_set = set existing_links, found_results = [],
                            added_links = []\<rparr>, evs0) of
                     (Inl e, evs1) \<Rightarrow> (Inl e, evs1)
                   | (Inr st, evs1) \<Rightarrow>
                       if found_results st \<noteq> []
                       then
                         (case send_email cfg w
                                 (subject_line w (length (found_results st)))
                                 (build_email_html w (found_results st))
                                 (str_nat (length (found_results st)) @ '' new results; see HTML.'') of
                            (Inl e, evs2) \<Rightarrow> (Inl e, evs1 @ evs2)
                          | (Inr _, evs2) \<Rightarrow>
                              (case save_sent_links cfg w
                                      (sorted_list_of_set (sent_set st)) remote_sha of
                                 (Inl e, evs3) \<Rightarrow> (Inl e, evs1 @ evs2 @ evs3)
                               | (Inr _, evs3) \<Rightarrow> (Inr (), evs1 @ evs2 @ evs3)))
                       else (Inr (), evs1)))))"

definition run :: "config \<Rightarrow> world \<Rightarrow> (exn + unit) \<times> event list" where
  "run cfg w = run_queries cfg QUERIES w"

subsection \<open>Notions used to state the properties\<close>

text \<open>The two checks at the top of \<^verbatim>\<open>run\<close> pass.\<close>

definition startup_ok :: "config \<Rightarrow> bool" where
  "startup_ok cfg =
     (truthy (GCP_API_KEY cfg) \<and> truthy (CSE_ID cfg)
      \<and> truthy (FROM_EMAIL cfg) \<and> truthy (TO_EMAIL cfg))"

text \<open>The transport that \<^verbatim>\<open>send_email\<close> selects has its credentials.\<close>

definition transport_ok :: "config \<Rightarrow> bool" where
  "transport_ok cfg =
     (truthy (SENDGRID_API_KEY cfg)
      \<or> (truthy (SMTP_HOST cfg) \<and> truthy (SMTP_USER cfg) \<and> truthy (SMTP_PASS cfg)))"

text \<open>
  The state fetch of a run: the GET of the file followed by the decoding of lines 189 to
  198. The result is the list of seen links and the revision (the version token).
\<close>

definition fetch :: "config \<Rightarrow> world \<Rightarrow> exn + string list \<times> string option" where
  "fetch cfg w =
     (case fst (get_repo_file cfg w (FILE_PATH cfg)) of
        Inl e \<Rightarrow> Inl e
      | Inr remote_obj \<Rightarrow> Inr (read_remote remote_obj))"

text \<open>What the loop body iterates for a query: the empty list when the search raises.\<close>

definition answer :: "config \<Rightarrow> world \<Rightarrow> string \<Rightarrow> pyitems" where
  "answer cfg w q =
     (case fst (google_custom_search cfg w q 1) of Inl e \<Rightarrow> Elements [] | Inr v \<Rightarrow> v)"

text \<open>
  A well-formed value is a list of objects, as the search API documents it; the objects of
  a value are its elements that are objects. \<open>payloads_ok\<close> says that what the loop
  iterates is well-formed for every query of the list.
\<close>

fun is_obj :: "element \<Rightarrow> bool" where
  "is_obj (Obj it) = True"
| "is_obj NotObj = False"

fun obj_of :: "element \<Rightarrow> item option" where
  "obj_of (Obj it) = Some it"
| "obj_of NotObj = None"

fun well_formed :: "pyitems \<Rightarrow> bool" where
  "well_formed NotIterable = False"
| "well_formed (Elements els) = list_all is_obj els"

fun objects :: "pyitems \<Rightarrow> item list" where
  "objects NotIterable = []"
| "objects (Elements els) = List.map_filter obj_of els"

definition payloads_ok :: "config \<Rightarrow> world \<Rightarrow> string list \<Rightarrow> bool" where
  "payloads_ok cfg w qs = list_all (\<lambda>q. well_formed (answer cfg w q)) qs"

definition returned :: "config \<Rightarrow> world \<Rightarrow> string \<Rightarrow> item list" where
  "returned cfg w q = objects (answer cfg w q)"

text \<open>
  The inner loop on a list of objects, where it cannot raise (\<open>items_loop_objects\<close>
  below): the loop variables after the list.
\<close>

definition scan_items :: "string \<Rightarrow> item list \<Rightarrow> scan \<Rightarrow> scan" where
  "scan_items q its st = (case items_loop q (map Obj its) st of Inr st' \<Rightarrow> st' | Inl e \<Rightarrow> st)"

text \<open>The links of the items that have one (present and not empty).\<close>

definition links_of :: "item list \<Rightarrow> string list" where
  "links_of its = filter (\<lambda>l. l \<noteq> []) (List.map_filter link its)"

definition returns_link :: "config \<Rightarrow> world \<Rightarrow> string \<Rightarrow> string \<Rightarrow> bool" where
  "returns_link cfg w l q = (l \<in> set (links_of (returned cfg w q)))"

text \<open>
  The loop variables before the first query and, for well-formed answers, after the last
  one (\<open>queries_loop_ok\<close> below).
\<close>

definition start_scan :: "string list \<Rightarrow> scan" where
  "start_scan existing_links =
     \<lparr>sent_set = set existing_links, found_results = [], added_links = []\<rparr>"

fun scan_all :: "config \<Rightarrow> world \<Rightarrow> string list \<Rightarrow> scan \<Rightarrow> scan" where
  "scan_all cfg w [] st = st"
| "scan_all cfg w (q # qs) st = scan_all cfg w qs (scan_items q (returned cfg w q) st)"

definition discovered :: "config \<Rightarrow> string list \<Rightarrow> world \<Rightarrow> string list \<Rightarrow> scan" where
  "discovered cfg qs w existing_links = scan_all cfg w qs (start_scan existing_links)"

definition search_events :: "config \<Rightarrow> world \<Rightarrow> string list \<Rightarrow> event list" where
  "search_events cfg w qs = concat (map (\<lambda>q. snd (google_custom_search cfg w q 1)) qs)"

text \<open>Whether the selected transport delivers: the arguments of the mail play no part.\<close>

definition delivery :: "config \<Rightarrow> world \<Rightarrow> exn + unit" where
  "delivery cfg w = fst (send_email cfg w [] [] [])"

text \<open>The HTML bodies of the mails and the lists and revisions of the writes in a trace.\<close>

fun mail_of :: "event \<Rightarrow> string option" where
  "mail_of (SmtpSend subject html_body text_body) = Some html_body"
| "mail_of (SendGridPost subject html_body text_body) = Some html_body"
| "mail_of _ = None"

fun put_of :: "event \<Rightarrow> (string list \<times> string option) option" where
  "put_of (StorePut url links message sha_sent) = Some (links, sha_sent)"
| "put_of _ = None"

definition mails :: "event list \<Rightarrow> string list" where
  "mails evs = List.map_filter mail_of evs"

definition puts :: "event list \<Rightarrow> (string list \<times> string option) list" where
  "puts evs = List.map_filter put_of evs"

text \<open>A world whose search answers have lost the objects without a link.\<close>

fun has_link :: "element \<Rightarrow> bool" where
  "has_link (Obj it) = truthy (link it)"
| "has_link NotObj = True"

fun map_items :: "(element list \<Rightarrow> element list) \<Rightarrow> pyitems \<Rightarrow> pyitems" where
  "map_items f NotIterable = NotIterable"
| "map_items f (Elements els) = Elements (f els)"

fun map_payload :: "(pyitems \<Rightarrow> pyitems) \<Rightarrow> payload http \<Rightarrow> payload http" where
  "map_payload f Unreachable = Unreachable"
| "map_payload f (Reply status_code None) = Reply status_code None"
| "map_payload f (Reply status_code (Some NotObject)) = Reply status_code (Some NotObject)"
| "map_payload f (Reply status_code (Some (Object items))) =
     Reply status_code (Some (Object (map_option f items)))"

definition drop_linkless :: "world \<Rightarrow> world" where
  "drop_linkless w =
     w\<lparr>search_api := \<lambda>q start. map_payload (map_items (filter has_link)) (search_api w q start)\<rparr>"

text \<open>A world in which the search for \<open>q\<close> succeeds with no items.\<close>

definition with_empty_result :: "world \<Rightarrow> string \<Rightarrow> world" where
  "with_empty_result w q =
     w\<lparr>search_api := \<lambda>q' start.
        if q' = q then Reply 200 (Some (Object (Some (Elements [])))) else search_api w q' start\<rparr>"

subsection \<open>Example inputs\<close>

definition job1 :: string where
  "job1 = ''https://a.com/job1''"

definition job2 :: string where
  "job2 = ''https://a.com/job2''"

definition cfg_sendgrid :: config where
  "cfg_sendgrid =
     \<lparr>GCP_API_KEY = Some ''key'', CSE_ID = Some ''cx'', GITHUB_REPOSITORY = Some ''o/r'',
      GITHUB_TOKEN = Some ''t'', FROM_EMAIL = Some ''a@x.org'', TO_EMAIL = Some ''b@x.org'',
      SMTP_HOST = None, SMTP_PORT = 587, SMTP_USER = None, SMTP_PASS = None,
      SENDGRID_API_KEY = Some ''sg'', FILE_PATH = ''sent_links.json''\<rparr>"

definition cfg_no_transport :: config where
  "cfg_no_transport = cfg_sendgrid\<lparr>SENDGRID_API_KEY := None\<rparr>"

definition cfg_no_sender :: config where
  "cfg_no_sender = cfg_sendgrid\<lparr>FROM_EMAIL := None\<rparr>"

text \<open>
  The scenario of the specification: the store holds job1 at revision v1, the first query
  returns job1 and job2, the second query returns job2 again.
\<close>

definition world_e2e :: world where
  "world_e2e =
     \<lparr>store_get = Reply 200 (Some \<lparr>sha = Some ''v1'', content = StrList [job1]\<rparr>),
      search_api = (\<lambda>q start.
        if q = QUERIES ! 0
        then Reply 200 (Some (Object (Some (Elements
          [Obj \<lparr>title = Some ''A'', snippet = Some ''B'', link = Some job1\<rparr>,
           Obj \<lparr>title = Some ''X'', snippet = Some ''Y'', link = Some job2\<rparr>]))))
        else Reply 200 (Some (Object (Some (Elements
          [Obj \<lparr>title = Some ''X2'', snippet = Some ''Y2'', link = Some job2\<rparr>]))))),
      smtp_session = None,
      sendgrid_post = Reply 202 None,
      store_put = Reply 200 (Some ()),
      local_date = ''2024-01-01'', utc_date = ''2024-01-01'',
      utc_iso = ''2024-01-01T00:00:00''\<rparr>"

definition world_all_seen :: world where
  "world_all_seen =
     world_e2e\<lparr>store_get := Reply 200 (Some \<lparr>sha = Some ''v2'', content = StrList [job2, job1]\<rparr>)\<rparr>"

definition world_notify_fails :: world where
  "world_notify_fails = world_e2e\<lparr>sendgrid_post := Reply 500 None\<rparr>"

definition world_linkless :: world where
  "world_linkless =
     world_e2e\<lparr>search_api := \<lambda>q start.
        if q = QUERIES ! 0
        then Reply 200 (Some (Object (Some (Elements
          [Obj \<lparr>title = Some ''no link'', snippet = None, link = None\<rparr>,
           Obj \<lparr>title = Some ''empty link'', snippet = None, link = Some []\<rparr>,
           Obj \<lparr>title = Some ''X'', snippet = Some ''Y'', link = Some job2\<rparr>]))))
        else Reply 200 (Some (Object None))\<rparr>"

definition world_bad_blob :: world where
  "world_bad_blob =
     world_e2e\<lparr>store_get := Reply 200 (Some \<lparr>sha = Some ''v1'', content = BadJSON\<rparr>)\<rparr>"

definition world_unsorted :: world where
  "world_unsorted =
     world_e2e\<lparr>store_get := Reply 200 (Some
        \<lparr>sha = Some ''v7'',
         content = StrList [''https://b.org/z'', job1, ''https://b.org/z'']\<rparr>)\<rparr>"

definition world_next_run :: world where
  "world_next_run = world_notify_fails\<lparr>sendgrid_post := Reply 202 None, utc_date := ''2024-01-02''\<rparr>"

definition world_not_modified :: world where
  "world_not_modified = world_e2e\<lparr>store_get := Reply 304 None\<rparr>"

text \<open>
  The first query is answered with status 200 and a JSON object whose \<^verbatim>\<open>items\<close> is
  \<^verbatim>\<open>null\<close>; the second query returns job2.
\<close>

definition world_items_null :: world where
  "world_items_null =
     world_e2e\<lparr>search_api := \<lambda>q start.
        if q = QUERIES ! 0 then Reply 200 (Some (Object (Some NotIterable)))
        else search_api world_e2e q start\<rparr>"

section \<open>Properties\<close>

subsection \<open>The search loop\<close>

lemma set_links_of: "set (links_of its) = {l. l \<noteq> [] \<and> Some l \<in> link ` set its}"
  by (induction its) (auto simp: links_of_def map_filter_simps split: option.splits)

lemma links_of_Nil: "links_of [] = []"
  by (simp add: links_of_def List.map_filter_def)

lemma set_links_of_Cons:
  "set (links_of (it # its)) =
     (case link it of None \<Rightarrow> set (links_of its)
      | Some l \<Rightarrow> if l = [] then set (links_of its) else insert l (set (links_of its)))"
  by (auto simp: set_links_of split: option.splits)

lemma items_loop_objects_Inr: "\<exists>st'. items_loop q (map Obj its) st = Inr st'"
  by (induction its arbitrary: st) (auto split: option.splits)

lemma items_loop_objects: "items_loop q (map Obj its) st = Inr (scan_items q its st)"
  using items_loop_objects_Inr [of q its st] by (auto simp: scan_items_def)

lemma scan_items_Nil: "scan_items q [] st = st"
  by (simp add: scan_items_def)

lemma scan_items_Cons:
  "scan_items q (it # its) st =
     (case link it of
        None \<Rightarrow> scan_items q its st
      | Some l \<Rightarrow>
          if l = [] then scan_items q its st
          else if l \<in> sent_set st then scan_items q its st
          else scan_items q its
                 \<lparr>sent_set = insert l (sent_set st),
                  found_results = found_results st
                    @ [\<lparr>title = title it, snippet = snippet it, link = Some l, query = q\<rparr>],
                  added_links = added_links st @ [l]\<rparr>)"
  by (simp add: scan_items_def [of q "it # its"] items_loop_objects split: option.splits)

lemma well_formed_objects: "well_formed (Elements els) \<Longrightarrow> map Obj (objects (Elements els)) = els"
proof (induction els)
  case Nil
  show ?case by (simp add: map_filter_simps)
next
  case (Cons e els)
  then show ?case by (cases e) (simp_all add: map_filter_simps)
qed

lemma for_items_ok:
  "well_formed v \<Longrightarrow> for_items q v st = Inr (scan_items q (objects v) st)"
proof (cases v)
  case NotIterable
  assume "well_formed v"
  with NotIterable show ?thesis by simp
next
  case (Elements els)
  assume "well_formed v"
  with Elements have "map Obj (objects v) = els" using well_formed_objects [of els] by blast
  with Elements items_loop_objects [of q "objects v" st] show ?thesis
    by (simp add: for_items_def)
qed

lemma items_loop_not_objects:
  "\<not> list_all is_obj els \<Longrightarrow> items_loop q els st = Inl AttributeError"
proof (induction els arbitrary: st)
  case Nil
  then show ?case by simp
next
  case (Cons e els)
  then show ?case by (cases e) (auto split: option.splits)
qed

lemma for_items_bad:
  "\<not> well_formed v \<Longrightarrow>
     for_items q v st = Inl (case v of NotIterable \<Rightarrow> TypeError | Elements els \<Rightarrow> AttributeError)"
  by (cases v) (simp_all add: for_items_def items_loop_not_objects)

lemma scan_items_step:
  "\<exists>new newr.
      added_links (scan_items q its st) = added_links st @ new \<and>
      found_results (scan_items q its st) = found_results st @ newr \<and>
      sent_set (scan_items q its st) = sent_set st \<union> set new \<and>
      map link newr = map Some new \<and>
      (\<forall>r\<in>set newr. query r = q) \<and>
      distinct new \<and>
      set new = set (links_of its) - sent_set st"
proof (induction its arbitrary: st)
  case Nil
  show ?case by (simp add: links_of_Nil scan_items_Nil)
next
  case (Cons it its)
  show ?case
  proof (cases "link it")
    case None
    with Cons.IH [of st] show ?thesis by (simp add: set_links_of_Cons scan_items_Cons)
  next
    case (Some l)
    show ?thesis
    proof (cases "l = [] \<or> l \<in> sent_set st")
      case True
      with Some Cons.IH [of st] show ?thesis
        by (auto simp: set_links_of_Cons scan_items_Cons)
    next
      case False
      define st' where "st' = \<lparr>sent_set = insert l (sent_set st),
          found_results = found_results st
            @ [\<lparr>title = title it, snippet = snippet it, link = Some l, query = q\<rparr>],
          added_links = added_links st @ [l]\<rparr>"
      have step: "scan_items q (it # its) st = scan_items q its st'"
        using Some False by (simp add: st'_def scan_items_Cons)
      from Cons.IH [of st'] obtain new newr where
        a: "added_links (scan_items q its st') = added_links st' @ new" and
        f: "found_results (scan_items q its st') = found_results st' @ newr" and
        s: "sent_set (scan_items q its st') = sent_set st' \<union> set new" and
        m: "map link newr = map Some new" and
        qq: "\<forall>r\<in>set newr. query r = q" and
        d: "distinct new" and
        n: "set new = set (links_of its) - sent_set st'"
        by blast
      let ?r = "\<lparr>title = title it, snippet = snippet it, link = Some l, query = q\<rparr>"
      have "added_links (scan_items q (it # its) st) = added_links st @ (l # new)"
        using a step by (simp add: st'_def)
      moreover have "found_results (scan_items q (it # its) st) = found_results st @ (?r # newr)"
        using f step by (simp add: st'_def)
      moreover have "sent_set (scan_items q (it # its) st) = sent_set st \<union> set (l # new)"
        using s step by (simp add: st'_def)
      moreover have "map link (?r # newr) = map Some (l # new)"
        using m by simp
      moreover have "\<forall>r\<in>set (?r # newr). query r = q"
        using qq by simp
      moreover have "distinct (l # new)"
        using d n by (simp add: st'_def)
      moreover have "set (l # new) = set (links_of (it # its)) - sent_set st"
        using n Some False by (auto simp: st'_def set_links_of_Cons)
      ultimately show ?thesis by blast
    qed
  qed
qed

lemma queries_loop_Cons:
  "queries_loop cfg w (q # qs) (st, evs) =
     (case for_items q (answer cfg w q) st of
        Inl e \<Rightarrow> (Inl e, evs @ snd (google_custom_search cfg w q 1))
      | Inr st' \<Rightarrow> queries_loop cfg w qs (st', evs @ snd (google_custom_search cfg w q 1)))"
proof -
  obtain res evs' where g: "google_custom_search cfg w q 1 = (res, evs')"
    by (cases "google_custom_search cfg w q 1")
  have a: "answer cfg w q = (case res of Inl e \<Rightarrow> Elements [] | Inr v \<Rightarrow> v)"
    unfolding answer_def g by simp
  have s: "snd (google_custom_search cfg w q 1) = evs'"
    unfolding g by simp
  show ?thesis
    unfolding a s queries_loop.simps g Let_def
    by (cases "for_items q (case res of Inl e \<Rightarrow> Elements [] | Inr v \<Rightarrow> v) st") simp_all
qed

lemma search_events_Nil: "search_events cfg w [] = []"
  by (simp add: search_events_def)

lemma search_events_Cons:
  "search_events cfg w (q # qs) = snd (google_custom_search cfg w q 1) @ search_events cfg w qs"
  by (simp add: search_events_def)

lemma search_events_append:
  "search_events cfg w (qs @ qs') = search_events cfg w qs @ search_events cfg w qs'"
  by (simp add: search_events_def)

lemma payloads_ok_Cons:
  "payloads_ok cfg w (q # qs) \<longleftrightarrow> well_formed (answer cfg w q) \<and> payloads_ok cfg w qs"
  by (simp add: payloads_ok_def)

lemma queries_loop_prefix:
  "payloads_ok cfg w pre \<Longrightarrow>
     queries_loop cfg w (pre @ rest) (st, evs)
       = queries_loop cfg w rest (scan_all cfg w pre st, evs @ search_events cfg w pre)"
proof (induction pre arbitrary: st evs)
  case Nil
  show ?case by (simp add: search_events_Nil)
next
  case (Cons q pre)
  from Cons.prems have wf: "well_formed (answer cfg w q)" and ok: "payloads_ok cfg w pre"
    by (simp_all add: payloads_ok_Cons)
  have "queries_loop cfg w ((q # pre) @ rest) (st, evs)
          = queries_loop cfg w (pre @ rest)
              (scan_items q (returned cfg w q) st, evs @ snd (google_custom_search cfg w q 1))"
    using for_items_ok [OF wf, of q st] by (simp add: queries_loop_Cons returned_def del: queries_loop.simps)
  also have "\<dots> = queries_loop cfg w rest
      (scan_all cfg w pre (scan_items q (returned cfg w q) st),
       (evs @ snd (google_custom_search cfg w q 1)) @ search_events cfg w pre)"
    by (rule Cons.IH [OF ok])
  finally show ?case by (simp add: search_events_Cons)
qed

lemma queries_loop_ok:
  "payloads_ok cfg w qs \<Longrightarrow>
     queries_loop cfg w qs (st, evs) = (Inr (scan_all cfg w qs st), evs @ search_events cfg w qs)"
  using queries_loop_prefix [of cfg w qs "[]" st evs] by simp

lemma queries_loop_raises:
  assumes "payloads_ok cfg w pre" and "\<not> well_formed (answer cfg w q)"
  shows "queries_loop cfg w (pre @ q # post) (st, evs) =
           (Inl (case answer cfg w q of NotIterable \<Rightarrow> TypeError | Elements els \<Rightarrow> AttributeError),
            evs @ search_events cfg w (pre @ [q]))"
  using for_items_bad [OF assms(2), of q "scan_all cfg w pre st"]
  by (simp add: queries_loop_prefix [OF assms(1)] queries_loop_Cons search_events_append
      search_events_Cons search_events_Nil del: queries_loop.simps)

lemma first_bad_payload:
  assumes "\<not> payloads_ok cfg w qs"
  obtains pre q post where "qs = pre @ q # post" and "payloads_ok cfg w pre"
    and "\<not> well_formed (answer cfg w q)"
proof -
  from assms have "\<exists>q\<in>set qs. \<not> well_formed (answer cfg w q)"
    by (simp add: payloads_ok_def list_all_iff)
  then obtain pre q post where "qs = pre @ q # post" and "\<not> well_formed (answer cfg w q)"
    and "\<forall>x\<in>set pre. \<not> \<not> well_formed (answer cfg w x)"
    by (rule split_list_first_propE)
  then show ?thesis
    using that by (simp add: payloads_ok_def list_all_iff)
qed

lemma scan_all_snoc:
  "scan_all cfg w (qs @ [q]) st = scan_items q (returned cfg w q) (scan_all cfg w qs st)"
  by (induction qs arbitrary: st) simp_all

lemma find_snoc:
  "find P (xs @ [x]) =
     (case find P xs of Some y \<Rightarrow> Some y | None \<Rightarrow> if P x then Some x else None)"
  by (induction xs) simp_all

lemma discovered_inv:
  fixes cfg w ex
  defines "st qs \<equiv> discovered cfg qs w ex"
  shows "sent_set (st qs) = set ex \<union> set (added_links (st qs)) \<and>
         distinct (added_links (st qs)) \<and>
         set (added_links (st qs)) = (\<Union>q\<in>set qs. set (links_of (returned cfg w q))) - set ex \<and>
         map link (found_results (st qs)) = map Some (added_links (st qs)) \<and>
         (\<forall>r\<in>set (found_results (st qs)). \<forall>l. link r = Some l \<longrightarrow>
             find (returns_link cfg w l) qs = Some (query r))"
proof (induction qs rule: rev_induct)
  case Nil
  show ?case by (simp add: st_def discovered_def start_scan_def)
next
  case (snoc q qs)
  let ?s = "st qs"
  have eq: "st (qs @ [q]) = scan_items q (returned cfg w q) ?s"
    by (simp add: st_def discovered_def scan_all_snoc)
  from scan_items_step [of q "returned cfg w q" ?s] obtain new newr where
    a: "added_links (st (qs @ [q])) = added_links ?s @ new" and
    f: "found_results (st (qs @ [q])) = found_results ?s @ newr" and
    s: "sent_set (st (qs @ [q])) = sent_set ?s \<union> set new" and
    m: "map link newr = map Some new" and
    qq: "\<forall>r\<in>set newr. query r = q" and
    d: "distinct new" and
    n: "set new = set (links_of (returned cfg w q)) - sent_set ?s"
    unfolding eq by blast
  from snoc.IH have
    i1: "sent_set ?s = set ex \<union> set (added_links ?s)" and
    i2: "distinct (added_links ?s)" and
    i3: "set (added_links ?s) = (\<Union>q\<in>set qs. set (links_of (returned cfg w q))) - set ex" and
    i4: "map link (found_results ?s) = map Some (added_links ?s)" and
    i5: "\<forall>r\<in>set (found_results ?s). \<forall>l. link r = Some l \<longrightarrow>
             find (returns_link cfg w l) qs = Some (query r)"
    by blast+
  have c1: "sent_set (st (qs @ [q])) = set ex \<union> set (added_links (st (qs @ [q])))"
    using s a i1 by auto
  have c2: "distinct (added_links (st (qs @ [q])))"
    using a i2 d n i1 by auto
  have c3: "set (added_links (st (qs @ [q])))
              = (\<Union>q\<in>set (qs @ [q]). set (links_of (returned cfg w q))) - set ex"
    using a n i1 i3 by auto
  have c4: "map link (found_results (st (qs @ [q]))) = map Some (added_links (st (qs @ [q])))"
    using a f m i4 by simp
  have c5: "\<forall>r\<in>set (found_results (st (qs @ [q]))). \<forall>l. link r = Some l \<longrightarrow>
             find (returns_link cfg w l) (qs @ [q]) = Some (query r)"
  proof (intro ballI allI impI)
    fix r l
    assume r: "r \<in> set (found_results (st (qs @ [q])))" and l: "link r = Some l"
    from r f consider "r \<in> set (found_results ?s)" | "r \<in> set newr" by auto
    then show "find (returns_link cfg w l) (qs @ [q]) = Some (query r)"
    proof cases
      case 1
      with i5 l show ?thesis by (simp add: find_snoc)
    next
      case 2
      then have "link r \<in> set (map link newr)" by simp
      then have "l \<in> set new" using m l by auto
      then have ret: "l \<in> set (links_of (returned cfg w q))" and notin: "l \<notin> sent_set ?s"
        using n by auto
      have "\<forall>q'\<in>set qs. \<not> returns_link cfg w l q'"
        using notin i1 i3 by (auto simp: returns_link_def)
      then have "find (returns_link cfg w l) qs = None"
        by (simp add: find_None_iff)
      with ret qq 2 show ?thesis
        by (simp add: find_snoc returns_link_def)
    qed
  qed
  from c1 c2 c3 c4 c5 show ?case by blast
qed

lemma discovered_sent_set:
  "sent_set (discovered cfg qs w ex) = set ex \<union> set (added_links (discovered cfg qs w ex))"
  using discovered_inv [of cfg qs w ex] by blast

lemma discovered_distinct: "distinct (added_links (discovered cfg qs w ex))"
  using discovered_inv [of cfg qs w ex] by blast

lemma discovered_added:
  "set (added_links (discovered cfg qs w ex))
     = (\<Union>q\<in>set qs. set (links_of (returned cfg w q))) - set ex"
  using discovered_inv [of cfg qs w ex] by blast

lemma discovered_links:
  "map link (found_results (discovered cfg qs w ex))
     = map Some (added_links (discovered cfg qs w ex))"
  using discovered_inv [of cfg qs w ex] by blast

lemma discovered_first_query:
  "r \<in> set (found_results (discovered cfg qs w ex)) \<Longrightarrow> link r = Some l
     \<Longrightarrow> find (returns_link cfg w l) qs = Some (query r)"
  using discovered_inv [of cfg qs w ex] by blast

lemma finite_sent_set: "finite (sent_set (discovered cfg qs w ex))"
  by (simp add: discovered_sent_set)

lemma distinct_count:
  "distinct xs \<Longrightarrow> length (filter (\<lambda>x. x = l) xs) = (if l \<in> set xs then 1 else 0)"
  by (induction xs) auto

lemma entries_for_link:
  "length (filter (\<lambda>r. link r = Some l) (found_results (discovered cfg qs w ex)))
     = (if l \<in> set (added_links (discovered cfg qs w ex)) then 1 else 0)"
proof -
  let ?st = "discovered cfg qs w ex"
  have "length (filter (\<lambda>r. link r = Some l) (found_results ?st))
          = length (filter (\<lambda>x. x = Some l) (map link (found_results ?st)))"
    by (simp add: filter_map comp_def)
  also have "\<dots> = length (filter (\<lambda>x. x = l) (added_links ?st))"
    by (simp add: discovered_links filter_map comp_def)
  also have "\<dots> = (if l \<in> set (added_links ?st) then 1 else 0)"
    using discovered_distinct [of cfg qs w ex] by (rule distinct_count)
  finally show ?thesis .
qed

subsection \<open>Events of the single operations\<close>

lemma mails_Nil: "mails [] = []"
  by (simp add: mails_def map_filter_simps)

lemma mails_Cons:
  "mails (e # es) = (case mail_of e of None \<Rightarrow> mails es | Some h \<Rightarrow> h # mails es)"
  by (cases "mail_of e") (simp_all add: mails_def map_filter_simps)

lemma puts_Nil: "puts [] = []"
  by (simp add: puts_def map_filter_simps)

lemma puts_Cons:
  "puts (e # es) = (case put_of e of None \<Rightarrow> puts es | Some p \<Rightarrow> p # puts es)"
  by (cases "put_of e") (simp_all add: puts_def map_filter_simps)

lemma mails_append: "mails (xs @ ys) = mails xs @ mails ys"
  by (simp add: mails_def List.map_filter_def)

lemma puts_append: "puts (xs @ ys) = puts xs @ puts ys"
  by (simp add: puts_def List.map_filter_def)

lemma search_events_ok:
  "startup_ok cfg \<Longrightarrow>
     search_events cfg w qs
       = map (\<lambda>q. SearchCall (fmt (GCP_API_KEY cfg)) (fmt (CSE_ID cfg)) q 1) qs"
  by (induction qs) (simp_all add: search_events_def google_custom_search_def startup_ok_def)

lemma mails_search_events: "mails (search_events cfg w qs) = []"
proof (induction qs)
  case Nil
  show ?case by (simp add: search_events_Nil mails_Nil)
next
  case (Cons q qs)
  have "mails (snd (google_custom_search cfg w q 1)) = []"
    by (simp add: google_custom_search_def mails_def map_filter_simps)
  with Cons show ?case by (simp add: search_events_Cons mails_append)
qed

lemma puts_search_events: "puts (search_events cfg w qs) = []"
proof (induction qs)
  case Nil
  show ?case by (simp add: search_events_Nil puts_Nil)
next
  case (Cons q qs)
  have "puts (snd (google_custom_search cfg w q 1)) = []"
    by (simp add: google_custom_search_def puts_def map_filter_simps)
  with Cons show ?case by (simp add: search_events_Cons puts_append)
qed

lemma get_repo_file_events:
  "snd (get_repo_file cfg w path) = [StoreGet (api_url cfg path) (auth_header cfg)]"
  by (simp add: get_repo_file_def)

lemma send_email_fst: "fst (send_email cfg w subject html_body text_body) = delivery cfg w"
  by (simp add: delivery_def send_email_def send_email_sendgrid_def send_email_smtp_def)

lemma send_email_puts: "puts (snd (send_email cfg w subject html_body text_body)) = []"
  by (simp add: send_email_def send_email_sendgrid_def send_email_smtp_def puts_def
      map_filter_simps)

lemma send_email_mails:
  "mails (snd (send_email cfg w subject html_body text_body))
     = (if transport_ok cfg then [html_body] else [])"
  by (auto simp: send_email_def send_email_sendgrid_def send_email_smtp_def mails_def
      map_filter_simps transport_ok_def)

lemma delivery_no_transport:
  "\<not> transport_ok cfg \<Longrightarrow>
     delivery cfg w
       = Inl (RuntimeError ''SMTP_HOST, SMTP_USER, SMTP_PASS must be set for SMTP sending.'')"
  by (auto simp: delivery_def send_email_def send_email_smtp_def transport_ok_def)

lemma save_sent_links_events:
  "snd (save_sent_links cfg w new_list sha_arg)
     = [StorePut (api_url cfg (FILE_PATH cfg)) new_list (commit_message w)
          (if truthy sha_arg then sha_arg else None)]"
  by (simp add: save_sent_links_def create_or_update_repo_file_def)

subsection \<open>The run, once the start-up checks and the fetch have passed\<close>

lemma run_queries_startup:
  "\<not> startup_ok cfg \<Longrightarrow>
     snd (run_queries cfg qs w) = [] \<and> (\<exists>m. fst (run_queries cfg qs w) = Inl (RuntimeError m))"
  by (auto simp: run_queries_def startup_ok_def)

lemma run_queries_fetch_fails:
  "startup_ok cfg \<Longrightarrow> fetch cfg w = Inl e \<Longrightarrow>
     run_queries cfg qs w = (Inl e, [StoreGet (api_url cfg (FILE_PATH cfg)) (auth_header cfg)])"
  using get_repo_file_events [of cfg w "FILE_PATH cfg"]
  by (cases "get_repo_file cfg w (FILE_PATH cfg)")
     (auto simp: run_queries_def startup_ok_def fetch_def split: sum.splits)

lemma run_queries_via_fetch:
  assumes ok: "startup_ok cfg" and fe: "fetch cfg w = Inr (ex, remote_sha)"
  shows "run_queries cfg qs w =
     (case queries_loop cfg w qs
             (start_scan ex, [StoreGet (api_url cfg (FILE_PATH cfg)) (auth_header cfg)]) of
        (Inl e, evs1) \<Rightarrow> (Inl e, evs1)
      | (Inr st, evs1) \<Rightarrow>
          if found_results st \<noteq> []
          then
            (case send_email cfg w
                    (subject_line w (length (found_results st)))
                    (build_email_html w (found_results st))
                    (str_nat (length (found_results st)) @ '' new results; see HTML.'') of
               (Inl e, evs2) \<Rightarrow> (Inl e, evs1 @ evs2)
             | (Inr _, evs2) \<Rightarrow>
                 (case save_sent_links cfg w (sorted_list_of_set (sent_set st)) remote_sha of
                    (Inl e, evs3) \<Rightarrow> (Inl e, evs1 @ evs2 @ evs3)
                  | (Inr _, evs3) \<Rightarrow> (Inr (), evs1 @ evs2 @ evs3)))
          else (Inr (), evs1))"
proof -
  obtain res evs0 where g: "get_repo_file cfg w (FILE_PATH cfg) = (res, evs0)"
    by (cases "get_repo_file cfg w (FILE_PATH cfg)")
  with get_repo_file_events [of cfg w "FILE_PATH cfg"]
  have evs0: "evs0 = [StoreGet (api_url cfg (FILE_PATH cfg)) (auth_header cfg)]" by simp
  from fe g obtain obj where res: "res = Inr obj" and rr: "read_remote obj = (ex, remote_sha)"
    by (auto simp: fetch_def split: sum.splits)
  have g': "get_repo_file cfg w (FILE_PATH cfg)
              = (Inr obj, [StoreGet (api_url cfg (FILE_PATH cfg)) (auth_header cfg)])"
    using g res evs0 by simp
  have c: "\<not> (\<not> truthy (GCP_API_KEY cfg) \<or> \<not> truthy (CSE_ID cfg))"
          "\<not> (\<not> truthy (FROM_EMAIL cfg) \<or> \<not> truthy (TO_EMAIL cfg))"
    using ok by (simp_all add: startup_ok_def)
  show ?thesis
    using c by (simp add: run_queries_def g' rr start_scan_def del: queries_loop.simps)
qed

lemma run_queries_fetched:
  assumes ok: "startup_ok cfg" and fe: "fetch cfg w = Inr (ex, remote_sha)"
    and pl: "payloads_ok cfg w qs"
  shows "run_queries cfg qs w =
     (let st = discovered cfg qs w ex;
          evs1 = StoreGet (api_url cfg (FILE_PATH cfg)) (auth_header cfg) # search_events cfg w qs
      in if found_results st \<noteq> []
         then
           (case send_email cfg w
                   (subject_line w (length (found_results st)))
                   (build_email_html w (found_results st))
                   (str_nat (length (found_results st)) @ '' new results; see HTML.'') of
              (Inl e, evs2) \<Rightarrow> (Inl e, evs1 @ evs2)
            | (Inr _, evs2) \<Rightarrow>
                (case save_sent_links cfg w (sorted_list_of_set (sent_set st)) remote_sha of
                   (Inl e, evs3) \<Rightarrow> (Inl e, evs1 @ evs2 @ evs3)
                 | (Inr _, evs3) \<Rightarrow> (Inr (), evs1 @ evs2 @ evs3)))
         else (Inr (), evs1))"
  unfolding run_queries_via_fetch [OF ok fe] queries_loop_ok [OF pl] discovered_def Let_def
  by simp

lemma run_loop_raises:
  assumes "startup_ok cfg" and "fetch cfg w = Inr (ex, remote_sha)"
    and "payloads_ok cfg w pre" and "\<not> well_formed (answer cfg w q)"
  shows "run_queries cfg (pre @ q # post) w =
           (Inl (case answer cfg w q of NotIterable \<Rightarrow> TypeError | Elements els \<Rightarrow> AttributeError),
            StoreGet (api_url cfg (FILE_PATH cfg)) (auth_header cfg)
              # search_events cfg w (pre @ [q]))"
  unfolding run_queries_via_fetch [OF assms(1,2)] queries_loop_raises [OF assms(3,4)]
  by simp

text \<open>What a run that has fetched its state does, by the three ways it can end.\<close>

lemma run_nothing_new:
  assumes "startup_ok cfg" and "fetch cfg w = Inr (ex, remote_sha)"
    and "payloads_ok cfg w qs"
    and "found_results (discovered cfg qs w ex) = []"
  shows "run_queries cfg qs w =
           (Inr (), StoreGet (api_url cfg (FILE_PATH cfg)) (auth_header cfg)
                      # search_events cfg w qs)"
  using assms by (simp add: run_queries_fetched)

lemma run_send_fails:
  assumes "startup_ok cfg" and "fetch cfg w = Inr (ex, remote_sha)"
    and "payloads_ok cfg w qs"
    and "found_results (discovered cfg qs w ex) \<noteq> []"
    and "delivery cfg w = Inl e"
  shows "fst (run_queries cfg qs w) = Inl e"
    and "puts (snd (run_queries cfg qs w)) = []"
    and "mails (snd (run_queries cfg qs w))
           = (if transport_ok cfg
              then [build_email_html w (found_results (discovered cfg qs w ex))] else [])"
proof -
  let ?st = "discovered cfg qs w ex"
  let ?send = "send_email cfg w (subject_line w (length (found_results ?st)))
     (build_email_html w (found_results ?st))
     (str_nat (length (found_results ?st)) @ '' new results; see HTML.'')"
  obtain r evs2 where s: "?send = (r, evs2)" by (cases ?send)
  have r: "r = Inl e" using send_email_fst [of cfg w] s assms(5) by (metis fst_conv)
  have run: "run_queries cfg qs w =
      (Inl e, (StoreGet (api_url cfg (FILE_PATH cfg)) (auth_header cfg) # search_events cfg w qs)
              @ evs2)"
    using assms(1-4) s r by (simp add: run_queries_fetched)
  have p: "puts evs2 = []" using send_email_puts s by (metis snd_conv)
  have m: "mails evs2 = (if transport_ok cfg then [build_email_html w (found_results ?st)] else [])"
    using send_email_mails s by (metis snd_conv)
  show "fst (run_queries cfg qs w) = Inl e" by (simp add: run)
  show "puts (snd (run_queries cfg qs w)) = []"
    using p puts_search_events [of cfg w qs]
    by (simp add: run puts_append puts_Cons)
  show "mails (snd (run_queries cfg qs w))
           = (if transport_ok cfg then [build_email_html w (found_results ?st)] else [])"
    using m mails_search_events [of cfg w qs]
    by (simp add: run mails_append mails_Cons)
qed

lemma run_send_ok:
  assumes "startup_ok cfg" and "fetch cfg w = Inr (ex, remote_sha)"
    and "payloads_ok cfg w qs"
    and "found_results (discovered cfg qs w ex) \<noteq> []"
    and "delivery cfg w = Inr u"
  shows "puts (snd (run_queries cfg qs w))
           = [(sorted_list_of_set (sent_set (discovered cfg qs w ex)),
               if truthy remote_sha then remote_sha else None)]"
    and "mails (snd (run_queries cfg qs w))
           = [build_email_html w (found_results (discovered cfg qs w ex))]"
proof -
  let ?st = "discovered cfg qs w ex"
  let ?send = "send_email cfg w (subject_line w (length (found_results ?st)))
     (build_email_html w (found_results ?st))
     (str_nat (length (found_results ?st)) @ '' new results; see HTML.'')"
  let ?save = "save_sent_links cfg w (sorted_list_of_set (sent_set ?st)) remote_sha"
  let ?evs1 = "StoreGet (api_url cfg (FILE_PATH cfg)) (auth_header cfg) # search_events cfg w qs"
  obtain r evs2 where s: "?send = (r, evs2)" by (cases ?send)
  obtain r' evs3 where v: "?save = (r', evs3)" by (cases ?save)
  have r: "r = Inr u" using send_email_fst [of cfg w] s assms(5) by (metis fst_conv)
  have tr: "transport_ok cfg"
    using assms(5) delivery_no_transport [of cfg w] by auto
  have run: "snd (run_queries cfg qs w) = ?evs1 @ evs2 @ evs3"
    using assms(1-4) s r v by (cases r') (simp_all add: run_queries_fetched)
  have p2: "puts evs2 = []" using send_email_puts s by (metis snd_conv)
  have m2: "mails evs2 = [build_email_html w (found_results ?st)]"
    using send_email_mails s tr by (metis snd_conv)
  have e3: "evs3 = [StorePut (api_url cfg (FILE_PATH cfg)) (sorted_list_of_set (sent_set ?st))
      (commit_message w) (if truthy remote_sha then remote_sha else None)]"
    using save_sent_links_events v by (metis snd_conv)
  have p1: "puts ?evs1 = []"
    using puts_search_events [of cfg w qs] by (simp add: puts_Cons)
  have m1: "mails ?evs1 = []"
    using mails_search_events [of cfg w qs] by (simp add: mails_Cons)
  show "puts (snd (run_queries cfg qs w))
           = [(sorted_list_of_set (sent_set ?st), if truthy remote_sha then remote_sha else None)]"
    unfolding run puts_append p1 p2 by (simp add: e3 puts_Cons puts_Nil)
  show "mails (snd (run_queries cfg qs w)) = [build_email_html w (found_results ?st)]"
    unfolding run mails_append m1 m2 by (simp add: e3 mails_Cons mails_Nil)
qed

lemma run_queries_not_started:
  "\<not> startup_ok cfg \<Longrightarrow>
     run_queries cfg qs w =
       (if \<not> truthy (GCP_API_KEY cfg) \<or> \<not> truthy (CSE_ID cfg)
        then (Inl (RuntimeError ''GCP_API_KEY and CSE_ID required.''), [])
        else (Inl (RuntimeError ''FROM_EMAIL and TO_EMAIL must be set.''), []))"
  by (auto simp: run_queries_def startup_ok_def)

lemma fetch_cases:
  obtains e where "fetch cfg w = Inl e"
  | ex remote_sha where "fetch cfg w = Inr (ex, remote_sha)"
  by (cases "fetch cfg w") auto

lemma delivery_cases:
  obtains e where "delivery cfg w = Inl e" | "delivery cfg w = Inr ()"
  by (cases "delivery cfg w") auto

lemma run_raises_cases:
  assumes "startup_ok cfg" and "fetch cfg w = Inr (ex, remote_sha)" and "\<not> payloads_ok cfg w qs"
  obtains e evs where "run_queries cfg qs w = (Inl e, evs)"
    and "e = TypeError \<or> e = AttributeError" and "mails evs = []" and "puts evs = []"
proof -
  from assms(3) obtain pre q post where qs: "qs = pre @ q # post"
    and pre: "payloads_ok cfg w pre" and bad: "\<not> well_formed (answer cfg w q)"
    by (rule first_bad_payload)
  let ?e = "case answer cfg w q of NotIterable \<Rightarrow> TypeError | Elements els \<Rightarrow> AttributeError"
  let ?evs = "StoreGet (api_url cfg (FILE_PATH cfg)) (auth_header cfg)
                # search_events cfg w (pre @ [q])"
  have "run_queries cfg qs w = (Inl ?e, ?evs)"
    unfolding qs by (rule run_loop_raises [OF assms(1,2) pre bad])
  moreover have "?e = TypeError \<or> ?e = AttributeError"
    by (cases "answer cfg w q") simp_all
  moreover have "mails ?evs = []"
    by (simp add: mails_Cons mails_search_events)
  moreover have "puts ?evs = []"
    by (simp add: puts_Cons puts_search_events)
  ultimately show ?thesis by (rule that)
qed

lemma run_puts_cases:
  "puts (snd (run_queries cfg qs w)) = [] \<or>
   (\<exists>ex remote_sha. startup_ok cfg \<and> fetch cfg w = Inr (ex, remote_sha) \<and>
      payloads_ok cfg w qs \<and>
      found_results (discovered cfg qs w ex) \<noteq> [] \<and>
      puts (snd (run_queries cfg qs w))
        = [(sorted_list_of_set (sent_set (discovered cfg qs w ex)),
            if truthy remote_sha then remote_sha else None)])"
proof (cases "startup_ok cfg")
  case False
  then show ?thesis using run_queries_startup [of cfg qs w] by (simp add: puts_Nil)
next
  case True
  show ?thesis
  proof (cases rule: fetch_cases [of cfg w])
    case (1 e)
    with True show ?thesis by (simp add: run_queries_fetch_fails puts_Cons puts_Nil)
  next
    case (2 ex remote_sha)
    show ?thesis
    proof (cases "payloads_ok cfg w qs")
      case False
      from True 2 False obtain e evs where "run_queries cfg qs w = (Inl e, evs)" and "puts evs = []"
        by (rule run_raises_cases)
      then show ?thesis by simp
    next
      case pl: True
      show ?thesis
      proof (cases "found_results (discovered cfg qs w ex) = []")
        case True
        with \<open>startup_ok cfg\<close> 2 pl show ?thesis
          by (simp add: run_nothing_new puts_Cons puts_search_events)
      next
        case False
        show ?thesis
        proof (cases rule: delivery_cases [of cfg w])
          case (1 e)
          with \<open>startup_ok cfg\<close> 2 pl False show ?thesis by (simp add: run_send_fails(2))
        next
          case 2
          with \<open>startup_ok cfg\<close> \<open>fetch cfg w = Inr (ex, remote_sha)\<close> pl False show ?thesis
            by (simp add: run_send_ok(1))
        qed
      qed
    qed
  qed
qed

lemma run_mails_cases:
  "mails (snd (run_queries cfg qs w)) = [] \<or>
   (\<exists>ex remote_sha. startup_ok cfg \<and> fetch cfg w = Inr (ex, remote_sha) \<and>
      payloads_ok cfg w qs \<and>
      found_results (discovered cfg qs w ex) \<noteq> [] \<and>
      mails (snd (run_queries cfg qs w))
        = [build_email_html w (found_results (discovered cfg qs w ex))])"
proof (cases "startup_ok cfg")
  case False
  then show ?thesis using run_queries_startup [of cfg qs w] by (simp add: mails_Nil)
next
  case True
  show ?thesis
  proof (cases rule: fetch_cases [of cfg w])
    case (1 e)
    with True show ?thesis by (simp add: run_queries_fetch_fails mails_Cons mails_Nil)
  next
    case (2 ex remote_sha)
    show ?thesis
    proof (cases "payloads_ok cfg w qs")
      case False
      from True 2 False obtain e evs where "run_queries cfg qs w = (Inl e, evs)" and "mails evs = []"
        by (rule run_raises_cases)
      then show ?thesis by simp
    next
      case pl: True
      show ?thesis
      proof (cases "found_results (discovered cfg qs w ex) = []")
        case True
        with \<open>startup_ok cfg\<close> 2 pl show ?thesis
          by (simp add: run_nothing_new mails_Cons mails_search_events)
      next
        case False
        show ?thesis
        proof (cases rule: delivery_cases [of cfg w])
          case (1 e)
          with \<open>startup_ok cfg\<close> 2 pl False show ?thesis by (simp add: run_send_fails(3))
        next
          case 2
          with \<open>startup_ok cfg\<close> \<open>fetch cfg w = Inr (ex, remote_sha)\<close> pl False show ?thesis
            by (simp add: run_send_ok(2))
        qed
      qed
    qed
  qed
qed

lemma nothing_new_iff:
  "found_results (discovered cfg qs w ex) = []
     \<longleftrightarrow> (\<forall>q\<in>set qs. set (links_of (returned cfg w q)) \<subseteq> set ex)"
proof -
  have "found_results (discovered cfg qs w ex) = []
          \<longleftrightarrow> added_links (discovered cfg qs w ex) = []"
    using discovered_links [of cfg qs w ex] by (metis map_is_Nil_conv)
  also have "\<dots> \<longleftrightarrow> set (added_links (discovered cfg qs w ex)) = {}" by simp
  also have "\<dots> \<longleftrightarrow> (\<forall>q\<in>set qs. set (links_of (returned cfg w q)) \<subseteq> set ex)"
    unfolding discovered_added by blast
  finally show ?thesis .
qed

subsection \<open>What the run reads of the world\<close>

lemma fetch_cong: "store_get w' = store_get w \<Longrightarrow> fetch cfg w' = fetch cfg w"
  by (simp add: fetch_def get_repo_file_def)

lemma google_custom_search_cong:
  "search_api w' = search_api w \<Longrightarrow>
     google_custom_search cfg w' q start = google_custom_search cfg w q start"
  by (simp add: google_custom_search_def)

lemma scan_all_cong:
  "\<forall>q\<in>set qs. returned cfg w' q = returned cfg w q \<Longrightarrow>
     scan_all cfg w' qs st = scan_all cfg w qs st"
  by (induction qs arbitrary: st) simp_all

lemma discovered_cong:
  "search_api w' = search_api w \<Longrightarrow> discovered cfg qs w' ex = discovered cfg qs w ex"
  unfolding discovered_def
  by (rule scan_all_cong) (simp add: returned_def answer_def google_custom_search_cong [of w' w])

lemma html_entries_concat: "html_entries html rs = html @ concat (map html_entry rs)"
  by (induction rs arbitrary: html) simp_all

lemma build_email_html_entries:
  "rs \<noteq> [] \<Longrightarrow>
     build_email_html w rs =
       ''<h2>Job search results '' @ em_dash @ '' '' @ local_date w @ ''</h2>'' @ ''<ol>''
       @ concat (map html_entry rs) @ ''</ol>''"
  by (simp add: build_email_html_def html_entries_concat)

lemma count_list_distinct: "distinct xs \<Longrightarrow> x \<in> set xs \<Longrightarrow> count_list xs x = 1"
  by (induction xs) auto

subsection \<open>Runs in two worlds\<close>

lemma google_custom_search_events:
  "snd (google_custom_search cfg w' q start) = snd (google_custom_search cfg w q start)"
  by (simp add: google_custom_search_def)

lemma search_events_world: "search_events cfg w' qs = search_events cfg w qs"
  unfolding search_events_def
  by (simp only: google_custom_search_events [of cfg w' _ _ w])

lemma queries_loop_cong:
  "\<forall>q\<in>set qs. for_items q (answer cfg w' q) = for_items q (answer cfg w q) \<Longrightarrow>
     queries_loop cfg w' qs (st, evs) = queries_loop cfg w qs (st, evs)"
proof (induction qs arbitrary: st evs)
  case Nil
  show ?case by simp
next
  case (Cons q qs)
  then have a: "for_items q (answer cfg w' q) st = for_items q (answer cfg w q) st"
    and ih: "\<And>st evs. queries_loop cfg w' qs (st, evs) = queries_loop cfg w qs (st, evs)"
    by simp_all
  show ?case
    unfolding queries_loop_Cons a google_custom_search_events [of cfg w' q 1 w] ih
    by (rule refl)
qed

lemma run_queries_cong:
  assumes fe: "fetch cfg w' = fetch cfg w"
    and ql: "\<And>st evs. queries_loop cfg w' qs (st, evs) = queries_loop cfg w qs (st, evs)"
    and tr: "sendgrid_post w' = sendgrid_post w" "smtp_session w' = smtp_session w"
    and st: "store_put w' = store_put w"
    and da: "local_date w' = local_date w" "utc_date w' = utc_date w" "utc_iso w' = utc_iso w"
  shows "run_queries cfg qs w' = run_queries cfg qs w"
proof (cases "startup_ok cfg")
  case False
  then show ?thesis by (simp add: run_queries_not_started)
next
  case True
  have send: "send_email cfg w' s h t = send_email cfg w s h t" for s h t
    using tr by (simp add: send_email_def send_email_sendgrid_def send_email_smtp_def)
  have save: "save_sent_links cfg w' ls sh = save_sent_links cfg w ls sh" for ls sh
    using st da by (simp add: save_sent_links_def create_or_update_repo_file_def commit_message_def)
  have subj: "subject_line w' n = subject_line w n" for n
    using da by (simp add: subject_line_def)
  have html: "build_email_html w' rs = build_email_html w rs" for rs
    using da by (simp add: build_email_html_def)
  show ?thesis
  proof (cases rule: fetch_cases [of cfg w])
    case (1 e)
    then have "fetch cfg w' = Inl e" using fe by simp
    with 1 True show ?thesis by (simp add: run_queries_fetch_fails)
  next
    case (2 ex remote_sha)
    then have fe': "fetch cfg w' = Inr (ex, remote_sha)" using fe by simp
    show ?thesis
      unfolding run_queries_via_fetch [OF True fe'] run_queries_via_fetch [OF True 2]
        ql send save subj html
      by (rule refl)
  qed
qed

lemma answer_with_empty_result:
  "answer cfg (with_empty_result w q) q' = (if q' = q then Elements [] else answer cfg w q')"
  by (simp add: answer_def with_empty_result_def google_custom_search_def raise_for_status_def)

lemma items_loop_linkless:
  "items_loop q (filter has_link els) st = items_loop q els st"
proof (induction els arbitrary: st)
  case Nil
  show ?case by simp
next
  case (Cons e els)
  then show ?case by (cases e) (auto split: option.splits)
qed

lemma for_items_linkless:
  "for_items q (map_items (filter has_link) v) st = for_items q v st"
  by (cases v) (simp_all add: for_items_def items_loop_linkless)

lemma answer_drop_linkless:
  "answer cfg (drop_linkless w) q = map_items (filter has_link) (answer cfg w q)"
proof (cases "search_api w q 1")
  case Unreachable
  then show ?thesis
    by (simp add: answer_def drop_linkless_def google_custom_search_def)
next
  case (Reply status_code body)
  show ?thesis
  proof (cases body)
    case None
    with Reply show ?thesis
      by (cases "raise_for_status status_code")
         (simp_all add: answer_def drop_linkless_def google_custom_search_def)
  next
    case (Some p)
    show ?thesis
    proof (cases p)
      case NotObject
      with Reply Some show ?thesis
        by (cases "raise_for_status status_code")
           (simp_all add: answer_def drop_linkless_def google_custom_search_def)
    next
      case (Object items)
      with Reply Some show ?thesis
        by (cases "raise_for_status status_code"; cases items)
           (simp_all add: answer_def drop_linkless_def google_custom_search_def)
    qed
  qed
qed

lemma fetch_not_found_or_error:
  assumes "store_get w = Reply status_code body"
  shows "(status_code = 404 \<longrightarrow> fetch cfg w = Inr ([], None))
         \<and> (400 \<le> status_code \<and> status_code < 600 \<and> status_code \<noteq> 404 \<longrightarrow>
               fetch cfg w = Inl (HTTPError status_code))"
  using assms
  by (simp add: fetch_def get_repo_file_def raise_for_status_def read_remote_def)

lemma search_exception_counts_as_empty:
  assumes "fst (google_custom_search cfg w q 1) = Inl e"
  shows "answer cfg w q = Elements []"
    and "run_queries cfg qs w = run_queries cfg qs (with_empty_result w q)"
proof -
  show r: "answer cfg w q = Elements []"
    using assms by (simp add: answer_def)
  have same: "answer cfg (with_empty_result w q) q' = answer cfg w q'" for q'
    using r by (simp add: answer_with_empty_result)
  have ql: "queries_loop cfg (with_empty_result w q) qs (st, evs) = queries_loop cfg w qs (st, evs)"
    for st evs
    by (intro queries_loop_cong) (simp add: same)
  have fe: "fetch cfg (with_empty_result w q) = fetch cfg w"
    by (rule fetch_cong) (simp add: with_empty_result_def)
  have "run_queries cfg qs (with_empty_result w q) = run_queries cfg qs w"
    by (rule run_queries_cong [OF fe ql]) (simp_all add: with_empty_result_def)
  then show "run_queries cfg qs w = run_queries cfg qs (with_empty_result w q)" by simp
qed

section \<open>The claims\<close>

text \<open>
  C1. In a run that has fetched its state and whose search answers are well-formed, let two
  queries (at positions \<open>i < j\<close> of the query list) both return an item with the link \<open>L\<close>
  (present and not empty, as \<open>returns_link\<close> says), which is not in the fetched list. Then
  the new items hold exactly one entry \<open>r\<close> for \<open>L\<close>, and its query is the first query of
  the list that returns \<open>L\<close>. The run hands the transport exactly one mail, whose HTML body
  is the heading, the rendered entries before \<open>r\<close>, the list entry of \<open>r\<close> with its title,
  snippet, the link \<open>L\<close> and that query, the rendered entries after \<open>r\<close>, and the closing
  tag (no mail only when the transport has no credentials). When the delivery works, the
  run issues exactly one PUT, with the sorted list of the fetched and the returned links
  and the fetched revision; that list contains \<open>L\<close> exactly once. When the delivery
  raises there is no PUT.
\<close>

theorem cross_query_dedup:
  assumes "startup_ok cfg" and "fetch cfg w = Inr (existing_links, remote_sha)"
    and "payloads_ok cfg w qs"
    and "L \<notin> set existing_links"
    and "i < j" and "j < length qs"
    and "returns_link cfg w L (qs ! i)" and "returns_link cfg w L (qs ! j)"
  shows \<open>(\<exists>pre r post.
        found_results (discovered cfg qs w existing_links) = pre @ r # post
        \<and> link r = Some L
        \<and> (\<forall>x\<in>set (pre @ post). link x \<noteq> Some L)
        \<and> find (returns_link cfg w L) qs = Some (query r)
        \<and> mails (snd (run_queries cfg qs w)) =
            (if transport_ok cfg
             then [''<h2>Job search results '' @ em_dash @ '' '' @ local_date w @ ''</h2><ol>''
                   @ concat (map html_entry pre)
                   @ ''<li><strong>'' @ fmt (title r) @ ''</strong><br>'' @ fmt (snippet r)
                   @ ''<br><a href="'' @ L @ ''" target="_blank">'' @ L
                   @ ''</a><br><small>query: '' @ query r @ ''</small></li><br>''
                   @ concat (map html_entry post) @ ''</ol>'']
             else []))
     \<and> (delivery cfg w = Inr () \<longrightarrow>
          transport_ok cfg
          \<and> puts (snd (run_queries cfg qs w)) =
              [(sorted_list_of_set (sent_set (discovered cfg qs w existing_links)),
                if truthy remote_sha then remote_sha else None)])
     \<and> (\<forall>e. delivery cfg w = Inl e \<longrightarrow> puts (snd (run_queries cfg qs w)) = [])
     \<and> count_list (sorted_list_of_set (sent_set (discovered cfg qs w existing_links))) L = 1
     \<and> set (sorted_list_of_set (sent_set (discovered cfg qs w existing_links)))
         = set existing_links \<union> (\<Union>q\<in>set qs. set (links_of (returned cfg w q)))\<close>
proof -
  let ?st = "discovered cfg qs w existing_links"
  let ?run = "run_queries cfg qs w"
  have "qs ! i \<in> set qs" using assms(5,6) by simp
  then have added: "L \<in> set (added_links ?st)"
    using assms(4,7) unfolding discovered_added returns_link_def by blast
  then obtain xs ys where sp: "added_links ?st = xs @ L # ys"
    by (meson split_list)
  have nx: "L \<notin> set xs" and ny: "L \<notin> set ys"
    using discovered_distinct [of cfg qs w existing_links] sp by auto
  have "map link (found_results ?st) = map Some xs @ Some L # map Some ys"
    using discovered_links [of cfg qs w existing_links] sp by simp
  then obtain pre r post where f: "found_results ?st = pre @ r # post"
    and lp: "map link pre = map Some xs" and lr: "link r = Some L"
    and lq: "map link post = map Some ys"
    by (auto simp: map_eq_append_conv map_eq_Cons_conv)
  have others: "\<forall>x\<in>set (pre @ post). link x \<noteq> Some L"
  proof
    fix x
    assume "x \<in> set (pre @ post)"
    then have "link x \<in> set (map link pre) \<union> set (map link post)" by auto
    then have "link x \<in> Some ` (set xs \<union> set ys)" unfolding lp lq by auto
    with nx ny show "link x \<noteq> Some L" by auto
  qed
  have first: "find (returns_link cfg w L) qs = Some (query r)"
    by (rule discovered_first_query [of r cfg qs w existing_links L]) (simp_all add: f lr)
  have ne: "found_results ?st \<noteq> []" using f by simp
  let ?body = \<open>''<h2>Job search results '' @ em_dash @ '' '' @ local_date w @ ''</h2><ol>''
                   @ concat (map html_entry pre)
                   @ ''<li><strong>'' @ fmt (title r) @ ''</strong><br>'' @ fmt (snippet r)
                   @ ''<br><a href="'' @ L @ ''" target="_blank">'' @ L
                   @ ''</a><br><small>query: '' @ query r @ ''</small></li><br>''
                   @ concat (map html_entry post) @ ''</ol>''\<close>
  have entry: \<open>html_entry r =
      ''<li><strong>'' @ fmt (title r) @ ''</strong><br>'' @ fmt (snippet r)
      @ ''<br><a href="'' @ L @ ''" target="_blank">'' @ L
      @ ''</a><br><small>query: '' @ query r @ ''</small></li><br>''\<close>
    by (simp add: html_entry_def lr)
  have body: "build_email_html w (found_results ?st) = ?body"
    unfolding f using build_email_html_entries [of "pre @ r # post" w] by (simp add: entry)
  have mail: "mails (snd ?run) = (if transport_ok cfg then [?body] else [])"
  proof (cases rule: delivery_cases [of cfg w])
    case (1 e)
    show ?thesis
      unfolding run_send_fails(3) [OF assms(1-3) ne 1] body by (rule refl)
  next
    case 2
    then have "transport_ok cfg" using delivery_no_transport [of cfg w] by auto
    then show ?thesis
      unfolding run_send_ok(2) [OF assms(1-3) ne 2] body by simp
  qed
  have put_ok: "delivery cfg w = Inr () \<longrightarrow>
      transport_ok cfg
      \<and> puts (snd ?run) =
          [(sorted_list_of_set (sent_set ?st), if truthy remote_sha then remote_sha else None)]"
  proof
    assume d: "delivery cfg w = Inr ()"
    then have "transport_ok cfg" using delivery_no_transport [of cfg w] by auto
    with run_send_ok(1) [OF assms(1-3) ne d]
    show "transport_ok cfg
      \<and> puts (snd ?run) =
          [(sorted_list_of_set (sent_set ?st), if truthy remote_sha then remote_sha else None)]"
      by simp
  qed
  have put_fail: "\<forall>e. delivery cfg w = Inl e \<longrightarrow> puts (snd ?run) = []"
    using run_send_fails(2) [OF assms(1-3) ne] by blast
  have "L \<in> sent_set ?st"
    using added discovered_sent_set [of cfg qs w existing_links] by simp
  then have cnt: "count_list (sorted_list_of_set (sent_set ?st)) L = 1"
    using finite_sent_set [of cfg qs w existing_links] by (simp add: count_list_distinct)
  have content: "set (sorted_list_of_set (sent_set ?st))
      = set existing_links \<union> (\<Union>q\<in>set qs. set (links_of (returned cfg w q)))"
    using finite_sent_set [of cfg qs w existing_links]
    by (auto simp: discovered_sent_set discovered_added)
  from f lr others first mail have ex: \<open>\<exists>pre r post.
        found_results ?st = pre @ r # post
        \<and> link r = Some L
        \<and> (\<forall>x\<in>set (pre @ post). link x \<noteq> Some L)
        \<and> find (returns_link cfg w L) qs = Some (query r)
        \<and> mails (snd ?run) =
            (if transport_ok cfg
             then [''<h2>Job search results '' @ em_dash @ '' '' @ local_date w @ ''</h2><ol>''
                   @ concat (map html_entry pre)
                   @ ''<li><strong>'' @ fmt (title r) @ ''</strong><br>'' @ fmt (snippet r)
                   @ ''<br><a href="'' @ L @ ''" target="_blank">'' @ L
                   @ ''</a><br><small>query: '' @ query r @ ''</small></li><br>''
                   @ concat (map html_entry post) @ ''</ol>'']
             else [])\<close>
    by blast
  from ex put_ok put_fail cnt content show ?thesis by (intro conjI)
qed

theorem cross_query_dedup_witness:
  \<open>startup_ok cfg_sendgrid
   \<and> fetch cfg_sendgrid world_e2e = Inr ([job1], Some ''v1'')
   \<and> payloads_ok cfg_sendgrid world_e2e QUERIES
   \<and> job2 \<notin> set [job1]
   \<and> (0::nat) < 1 \<and> 1 < length QUERIES
   \<and> returns_link cfg_sendgrid world_e2e job2 (QUERIES ! 0)
   \<and> returns_link cfg_sendgrid world_e2e job2 (QUERIES ! 1)
   \<and> delivery cfg_sendgrid world_e2e = Inr ()
   \<and> found_results (discovered cfg_sendgrid QUERIES world_e2e [job1])
       = [\<lparr>title = Some ''X'', snippet = Some ''Y'', link = Some job2, query = QUERIES ! 0\<rparr>]
   \<and> mails (snd (run cfg_sendgrid world_e2e))
       = [''<h2>Job search results '' @ [CHR 0xE2, CHR 0x80, CHR 0x94] @ '' 2024-01-01</h2><ol>''
          @ ''<li><strong>X</strong><br>Y<br>''
          @ ''<a href="https://a.com/job2" target="_blank">https://a.com/job2</a><br>''
          @ ''<small>query: '' @ QUERIES ! 0 @ ''</small></li><br></ol>'']
   \<and> puts (snd (run cfg_sendgrid world_e2e))
       = [([''https://a.com/job1'', ''https://a.com/job2''], Some ''v1'')]
   \<and> count_list [''https://a.com/job1'', ''https://a.com/job2''] job2 = 1
   \<and> fst (run cfg_sendgrid world_e2e) = Inr ()\<close>
proof -
  have a: "startup_ok cfg_sendgrid" by code_simp
  have b: "fetch cfg_sendgrid world_e2e = Inr ([job1], Some ''v1'')" by code_simp
  have p: "payloads_ok cfg_sendgrid world_e2e QUERIES" by code_simp
  have c: "job2 \<notin> set [job1]" by code_simp
  have d: "(0::nat) < 1" "1 < length QUERIES" by code_simp+
  have e: "returns_link cfg_sendgrid world_e2e job2 (QUERIES ! 0)" by code_simp
  have f: "returns_link cfg_sendgrid world_e2e job2 (QUERIES ! 1)" by code_simp
  have dl: "delivery cfg_sendgrid world_e2e = Inr ()" by code_simp
  have g: "found_results (discovered cfg_sendgrid QUERIES world_e2e [job1])
       = [\<lparr>title = Some ''X'', snippet = Some ''Y'', link = Some job2, query = QUERIES ! 0\<rparr>]"
    by code_simp
  have h: \<open>mails (snd (run cfg_sendgrid world_e2e))
       = [''<h2>Job search results '' @ [CHR 0xE2, CHR 0x80, CHR 0x94] @ '' 2024-01-01</h2><ol>''
          @ ''<li><strong>X</strong><br>Y<br>''
          @ ''<a href="https://a.com/job2" target="_blank">https://a.com/job2</a><br>''
          @ ''<small>query: '' @ QUERIES ! 0 @ ''</small></li><br></ol>'']\<close>
    by code_simp
  have s: "sorted_list_of_set (sent_set (discovered cfg_sendgrid QUERIES world_e2e [job1]))
             = [''https://a.com/job1'', ''https://a.com/job2'']"
    by code_simp
  have l: "fst (run cfg_sendgrid world_e2e) = Inr ()" by code_simp
  note t = cross_query_dedup [OF a b p c d e f, THEN conjunct2]
  from t dl have k: "puts (snd (run cfg_sendgrid world_e2e))
       = [([''https://a.com/job1'', ''https://a.com/job2''], Some ''v1'')]"
    unfolding s run_def by simp
  from t have m: "count_list [''https://a.com/job1'', ''https://a.com/job2''] job2 = 1"
    unfolding s by simp
  from a b p c d e f dl g h k m l show ?thesis by (intro conjI)
qed

text \<open>
  C2. In a run that has fetched its state, a link \<open>L\<close> of the fetched list is the link of
  no new item and is not among the added links; every mail the run sends is built from
  the new items only, so it has no entry for \<open>L\<close>; and every list the run writes to the
  store contains \<open>L\<close> exactly once.
\<close>

theorem seen_link_never_new:
  assumes "startup_ok cfg" and "fetch cfg w = Inr (existing_links, remote_sha)"
    and "L \<in> set existing_links"
  shows "Some L \<notin> link ` set (found_results (discovered cfg qs w existing_links))
         \<and> L \<notin> set (added_links (discovered cfg qs w existing_links))
         \<and> (\<forall>h\<in>set (mails (snd (run_queries cfg qs w))).
               h = build_email_html w (found_results (discovered cfg qs w existing_links)))
         \<and> (\<forall>p\<in>set (puts (snd (run_queries cfg qs w))). count_list (fst p) L = 1)"
proof -
  let ?st = "discovered cfg qs w existing_links"
  have notadded: "L \<notin> set (added_links ?st)"
    using assms(3) unfolding discovered_added by blast
  have "link ` set (found_results ?st) = Some ` set (added_links ?st)"
    using discovered_links [of cfg qs w existing_links] by (metis set_map)
  then have notfound: "Some L \<notin> link ` set (found_results ?st)"
    using notadded by auto
  have mail: "\<forall>h\<in>set (mails (snd (run_queries cfg qs w))). h = build_email_html w (found_results ?st)"
    using run_mails_cases [of cfg qs w] assms(2) by auto
  have "L \<in> sent_set ?st"
    using assms(3) discovered_sent_set [of cfg qs w existing_links] by simp
  then have cnt: "count_list (sorted_list_of_set (sent_set ?st)) L = 1"
    using finite_sent_set [of cfg qs w existing_links] by (simp add: count_list_distinct)
  have put: "\<forall>p\<in>set (puts (snd (run_queries cfg qs w))). count_list (fst p) L = 1"
    using run_puts_cases [of cfg qs w] assms(2) cnt by auto
  from notfound notadded mail put show ?thesis by blast
qed

theorem seen_link_never_new_witness:
  "startup_ok cfg_sendgrid
   \<and> fetch cfg_sendgrid world_e2e = Inr ([job1], Some ''v1'')
   \<and> job1 \<in> set [job1]
   \<and> Some job1 \<notin> link ` set (found_results (discovered cfg_sendgrid QUERIES world_e2e [job1]))
   \<and> map link (found_results (discovered cfg_sendgrid QUERIES world_e2e [job1])) = [Some job2]
   \<and> map fst (puts (snd (run_queries cfg_sendgrid QUERIES world_e2e))) = [[job1, job2]]
   \<and> count_list [job1, job2] job1 = 1"
proof -
  have a: "startup_ok cfg_sendgrid" by code_simp
  have b: "fetch cfg_sendgrid world_e2e = Inr ([job1], Some ''v1'')" by code_simp
  have c: "job1 \<in> set [job1]" by simp
  have g: "map link (found_results (discovered cfg_sendgrid QUERIES world_e2e [job1])) = [Some job2]"
    by code_simp
  have k: "map fst (puts (snd (run_queries cfg_sendgrid QUERIES world_e2e))) = [[job1, job2]]"
    by code_simp
  have m: "count_list [job1, job2] job1 = 1" by code_simp
  from seen_link_never_new [OF a b c, of QUERIES]
  have "Some job1 \<notin> link ` set (found_results (discovered cfg_sendgrid QUERIES world_e2e [job1]))"
    by (rule conjunct1)
  with a b c g k m show ?thesis by simp
qed

text \<open>
  C3. In a run that has fetched its state, got well-formed search answers and found new items, when the delivery of the
  mail raises, the run ends with that exception and never issues a PUT. The store is then
  as it was fetched: a later run that is given the same answer to its GET and the same
  search answers fetches the same state and finds the same new items again.
\<close>

theorem notify_failure_no_put:
  assumes "startup_ok cfg" and "fetch cfg w = Inr (existing_links, remote_sha)"
    and "payloads_ok cfg w qs"
    and "found_results (discovered cfg qs w existing_links) \<noteq> []"
    and "delivery cfg w = Inl e"
  shows "fst (run_queries cfg qs w) = Inl e
         \<and> puts (snd (run_queries cfg qs w)) = []
         \<and> (\<forall>w'. store_get w' = store_get w \<and> search_api w' = search_api w \<longrightarrow>
               fetch cfg w' = Inr (existing_links, remote_sha) \<and>
               found_results (discovered cfg qs w' existing_links)
                 = found_results (discovered cfg qs w existing_links))"
proof -
  have "fst (run_queries cfg qs w) = Inl e"
    by (rule run_send_fails(1) [OF assms])
  moreover have "puts (snd (run_queries cfg qs w)) = []"
    by (rule run_send_fails(2) [OF assms])
  moreover have "fetch cfg w' = Inr (existing_links, remote_sha) \<and>
      found_results (discovered cfg qs w' existing_links)
        = found_results (discovered cfg qs w existing_links)"
    if "store_get w' = store_get w" and "search_api w' = search_api w" for w'
    using assms(2) fetch_cong [OF that(1), of cfg] discovered_cong [OF that(2), of cfg qs]
    by simp
  ultimately show ?thesis by blast
qed

theorem notify_failure_no_put_witness:
  "startup_ok cfg_sendgrid
   \<and> fetch cfg_sendgrid world_notify_fails = Inr ([job1], Some ''v1'')
   \<and> payloads_ok cfg_sendgrid world_notify_fails QUERIES
   \<and> found_results (discovered cfg_sendgrid QUERIES world_notify_fails [job1]) \<noteq> []
   \<and> delivery cfg_sendgrid world_notify_fails = Inl (HTTPError 500)
   \<and> fst (run_queries cfg_sendgrid QUERIES world_notify_fails) = Inl (HTTPError 500)
   \<and> puts (snd (run_queries cfg_sendgrid QUERIES world_notify_fails)) = []
   \<and> fetch cfg_sendgrid world_next_run = Inr ([job1], Some ''v1'')
   \<and> found_results (discovered cfg_sendgrid QUERIES world_next_run [job1])
       = found_results (discovered cfg_sendgrid QUERIES world_notify_fails [job1])"
proof -
  have a: "startup_ok cfg_sendgrid" by code_simp
  have b: "fetch cfg_sendgrid world_notify_fails = Inr ([job1], Some ''v1'')" by code_simp
  have p: "payloads_ok cfg_sendgrid world_notify_fails QUERIES" by code_simp
  have c: "found_results (discovered cfg_sendgrid QUERIES world_notify_fails [job1]) \<noteq> []"
    by code_simp
  have d: "delivery cfg_sendgrid world_notify_fails = Inl (HTTPError 500)" by code_simp
  have n: "store_get world_next_run = store_get world_notify_fails
           \<and> search_api world_next_run = search_api world_notify_fails"
    by (simp add: world_next_run_def)
  note t = notify_failure_no_put [OF a b p c d]
  note t1 = t [THEN conjunct1]
  note t2 = t [THEN conjunct2, THEN conjunct1]
  have t3: "fetch cfg_sendgrid world_next_run = Inr ([job1], Some ''v1'') \<and>
     found_results (discovered cfg_sendgrid QUERIES world_next_run [job1])
       = found_results (discovered cfg_sendgrid QUERIES world_notify_fails [job1])"
    using t [THEN conjunct2, THEN conjunct2] n by blast
  from a b p c d t1 t2 t3 show ?thesis by (intro conjI) simp_all
qed

text \<open>
  C4. A run that passes the start-up checks and fetches its state, whose search answers are
  well-formed, and in which every link
  that a query returns is already in the fetched list (in particular when no query returns
  anything), ends successfully after the fetch and the searches: no mail is sent and
  nothing is written to the store.
\<close>

theorem no_new_items_no_effect:
  assumes "startup_ok cfg" and "fetch cfg w = Inr (existing_links, remote_sha)"
    and "payloads_ok cfg w qs"
    and "\<forall>q\<in>set qs. set (links_of (returned cfg w q)) \<subseteq> set existing_links"
  shows "run_queries cfg qs w =
           (Inr (), StoreGet (api_url cfg (FILE_PATH cfg)) (auth_header cfg)
                      # map (\<lambda>q. SearchCall (fmt (GCP_API_KEY cfg)) (fmt (CSE_ID cfg)) q 1) qs)
         \<and> mails (snd (run_queries cfg qs w)) = []
         \<and> puts (snd (run_queries cfg qs w)) = []"
proof -
  have no_new: "found_results (discovered cfg qs w existing_links) = []"
    using assms(4) nothing_new_iff [of cfg qs w existing_links] by blast
  have run: "run_queries cfg qs w =
      (Inr (), StoreGet (api_url cfg (FILE_PATH cfg)) (auth_header cfg) # search_events cfg w qs)"
    by (rule run_nothing_new [OF assms(1-3) no_new])
  have se: "search_events cfg w qs
              = map (\<lambda>q. SearchCall (fmt (GCP_API_KEY cfg)) (fmt (CSE_ID cfg)) q 1) qs"
    by (rule search_events_ok [OF assms(1)])
  have m: "mails (snd (run_queries cfg qs w)) = []"
    by (simp add: run mails_Cons mails_search_events)
  have p: "puts (snd (run_queries cfg qs w)) = []"
    by (simp add: run puts_Cons puts_search_events)
  from run [unfolded se] m p show ?thesis by blast
qed

theorem no_new_items_no_effect_witness:
  "startup_ok cfg_sendgrid
   \<and> fetch cfg_sendgrid world_all_seen = Inr ([job2, job1], Some ''v2'')
   \<and> payloads_ok cfg_sendgrid world_all_seen QUERIES
   \<and> list_all (\<lambda>q. set (links_of (returned cfg_sendgrid world_all_seen q)) \<subseteq> set [job2, job1])
        QUERIES
   \<and> run_queries cfg_sendgrid QUERIES world_all_seen =
       (Inr (), [StoreGet ''https://api.github.com/repos/o/r/contents/sent_links.json''
                   (Some ''token t''),
                 SearchCall ''key'' ''cx'' (QUERIES ! 0) 1,
                 SearchCall ''key'' ''cx'' (QUERIES ! 1) 1])
   \<and> puts (snd (run_queries cfg_sendgrid QUERIES world_all_seen)) = []"
proof -
  have a: "startup_ok cfg_sendgrid" by code_simp
  have b: "fetch cfg_sendgrid world_all_seen = Inr ([job2, job1], Some ''v2'')" by code_simp
  have p: "payloads_ok cfg_sendgrid world_all_seen QUERIES" by code_simp
  have c: "\<forall>q\<in>set QUERIES.
             set (links_of (returned cfg_sendgrid world_all_seen q)) \<subseteq> set [job2, job1]"
    by code_simp
  have d: "StoreGet (api_url cfg_sendgrid (FILE_PATH cfg_sendgrid)) (auth_header cfg_sendgrid)
             # map (\<lambda>q. SearchCall (fmt (GCP_API_KEY cfg_sendgrid)) (fmt (CSE_ID cfg_sendgrid)) q 1)
                 QUERIES
           = [StoreGet ''https://api.github.com/repos/o/r/contents/sent_links.json''
                   (Some ''token t''),
                 SearchCall ''key'' ''cx'' (QUERIES ! 0) 1,
                 SearchCall ''key'' ''cx'' (QUERIES ! 1) 1]"
    by code_simp
  from no_new_items_no_effect [OF a b p c] a b p c show ?thesis
    unfolding d by (simp add: puts_Cons puts_Nil list_all_iff)
qed

text \<open>
  C5. The fetch gives the empty list and no revision on 404 and raises on every other
  status from 400 to 599 (\<open>fetch_not_found_or_error\<close>). On the remaining statuses other
  than 200 (for example 204, 300 or 304) \<^verbatim>\<open>raise_for_status\<close> does not raise and
  \<^verbatim>\<open>get_repo_file\<close> falls through to its last \<^verbatim>\<open>return None\<close>, although its docstring
  reserves \<^verbatim>\<open>None\<close> for a file that is not found: the fetch gives the empty list and no
  revision where an error is due, and the run goes on as if the store were empty.
\<close>

theorem fetch_falls_through_on_other_status:
  assumes "store_get w = Reply status_code body"
    and "status_code \<noteq> 200" and "status_code \<noteq> 404"
    and "\<not> (400 \<le> status_code \<and> status_code < 600)"
  shows "fst (get_repo_file cfg w path) = Inr None \<and> fetch cfg w = Inr ([], None)"
  using assms
  by (simp add: fetch_def get_repo_file_def raise_for_status_def read_remote_def)

theorem fetch_falls_through_on_other_status_witness:
  "store_get world_not_modified = Reply 304 None
   \<and> (304::nat) \<noteq> 200 \<and> (304::nat) \<noteq> 404 \<and> \<not> (400 \<le> (304::nat) \<and> (304::nat) < 600)
   \<and> fst (get_repo_file cfg_sendgrid world_not_modified (FILE_PATH cfg_sendgrid)) = Inr None
   \<and> fetch cfg_sendgrid world_not_modified = Inr ([], None)
   \<and> fst (run_queries cfg_sendgrid QUERIES world_not_modified) = Inr ()
   \<and> map link (found_results (discovered cfg_sendgrid QUERIES world_not_modified []))
       = [Some job1, Some job2]
   \<and> puts (snd (run_queries cfg_sendgrid QUERIES world_not_modified)) = [([job1, job2], None)]"
proof -
  have a: "store_get world_not_modified = Reply 304 None"
    by (simp add: world_not_modified_def)
  have b: "(304::nat) \<noteq> 200" "(304::nat) \<noteq> 404" "\<not> (400 \<le> (304::nat) \<and> (304::nat) < 600)"
    by simp_all
  note t = fetch_falls_through_on_other_status [OF a b, of cfg_sendgrid "FILE_PATH cfg_sendgrid"]
  have c: "fst (run_queries cfg_sendgrid QUERIES world_not_modified) = Inr ()" by code_simp
  have d: "map link (found_results (discovered cfg_sendgrid QUERIES world_not_modified []))
       = [Some job1, Some job2]"
    by code_simp
  have e: "puts (snd (run_queries cfg_sendgrid QUERIES world_not_modified))
             = [([job1, job2], None)]"
    by code_simp
  from a b t [THEN conjunct1] t [THEN conjunct2] c d e show ?thesis by (intro conjI)
qed

text \<open>
  C6. An exception raised inside \<^verbatim>\<open>google_custom_search\<close> (no connection, a status from
  400 to 599, a body that is not JSON or not a JSON object) is caught and counts as no
  items (\<open>search_exception_counts_as_empty\<close>). A malformed answer that the search
  function returns is not caught: the \<^verbatim>\<open>for\<close> over the items is outside the \<^verbatim>\<open>try\<close>, so
  when the first query whose \<^verbatim>\<open>items\<close> is not a list of objects is reached, the run ends
  with \<^verbatim>\<open>TypeError\<close> or \<^verbatim>\<open>AttributeError\<close>, the queries after it are never searched, and
  nothing is mailed or written.
\<close>

theorem malformed_items_abort_run:
  assumes "startup_ok cfg" and "fetch cfg w = Inr (existing_links, remote_sha)"
    and "payloads_ok cfg w pre" and "\<not> well_formed (answer cfg w q)"
  shows "run_queries cfg (pre @ q # post) w =
           (Inl (case answer cfg w q of NotIterable \<Rightarrow> TypeError | Elements els \<Rightarrow> AttributeError),
            StoreGet (api_url cfg (FILE_PATH cfg)) (auth_header cfg)
              # map (\<lambda>q. SearchCall (fmt (GCP_API_KEY cfg)) (fmt (CSE_ID cfg)) q 1) (pre @ [q]))"
  unfolding run_loop_raises [OF assms] search_events_ok [OF assms(1)] by (rule refl)

theorem malformed_items_abort_run_witness:
  "startup_ok cfg_sendgrid
   \<and> fetch cfg_sendgrid world_items_null = Inr ([job1], Some ''v1'')
   \<and> payloads_ok cfg_sendgrid world_items_null []
   \<and> search_api world_items_null (QUERIES ! 0) 1 = Reply 200 (Some (Object (Some NotIterable)))
   \<and> fst (google_custom_search cfg_sendgrid world_items_null (QUERIES ! 0) 1) = Inr NotIterable
   \<and> \<not> well_formed (answer cfg_sendgrid world_items_null (QUERIES ! 0))
   \<and> returns_link cfg_sendgrid world_items_null job2 (QUERIES ! 1)
   \<and> QUERIES = [] @ QUERIES ! 0 # [QUERIES ! 1]
   \<and> run cfg_sendgrid world_items_null =
       (Inl TypeError,
        [StoreGet ''https://api.github.com/repos/o/r/contents/sent_links.json'' (Some ''token t''),
         SearchCall ''key'' ''cx'' (QUERIES ! 0) 1])"
proof -
  have a: "startup_ok cfg_sendgrid" by code_simp
  have b: "fetch cfg_sendgrid world_items_null = Inr ([job1], Some ''v1'')" by code_simp
  have p: "payloads_ok cfg_sendgrid world_items_null []" by code_simp
  have s: "search_api world_items_null (QUERIES ! 0) 1
             = Reply 200 (Some (Object (Some NotIterable)))"
    by code_simp
  have g: "fst (google_custom_search cfg_sendgrid world_items_null (QUERIES ! 0) 1)
             = Inr NotIterable"
    by code_simp
  have n: "answer cfg_sendgrid world_items_null (QUERIES ! 0) = NotIterable" by code_simp
  have c: "\<not> well_formed (answer cfg_sendgrid world_items_null (QUERIES ! 0))"
    unfolding n by simp
  have r: "returns_link cfg_sendgrid world_items_null job2 (QUERIES ! 1)" by code_simp
  have q: "QUERIES = [] @ QUERIES ! 0 # [QUERIES ! 1]" by code_simp
  have e: "StoreGet (api_url cfg_sendgrid (FILE_PATH cfg_sendgrid)) (auth_header cfg_sendgrid)
             # map (\<lambda>q. SearchCall (fmt (GCP_API_KEY cfg_sendgrid)) (fmt (CSE_ID cfg_sendgrid)) q 1)
                 ([] @ [QUERIES ! 0])
           = [StoreGet ''https://api.github.com/repos/o/r/contents/sent_links.json''
                (Some ''token t''),
              SearchCall ''key'' ''cx'' (QUERIES ! 0) 1]"
    by code_simp
  have "run cfg_sendgrid world_items_null =
       (Inl TypeError,
        [StoreGet ''https://api.github.com/repos/o/r/contents/sent_links.json'' (Some ''token t''),
         SearchCall ''key'' ''cx'' (QUERIES ! 0) 1])"
    using malformed_items_abort_run [OF a b p c, of "[QUERIES ! 1]"]
    unfolding run_def q [symmetric] n e by simp
  with a b p s g c r q show ?thesis by (intro conjI)
qed

text \<open>
  C7. When a search credential or the sender or recipient address is missing, the run
  raises a \<^verbatim>\<open>RuntimeError\<close> before any operation: its trace is empty. When these are
  present and only the credentials of the selected transport are missing (no SendGrid key
  and an SMTP value missing), no mail is transmitted and nothing is written, and the run
  that has fetched its state and got well-formed search answers raises the \<^verbatim>\<open>RuntimeError\<close> of \<^verbatim>\<open>send_email_smtp\<close> exactly
  when it has found new items, that is after the fetch and the searches; with no new
  items it succeeds.
\<close>

theorem missing_config_failure_points:
  "(\<not> startup_ok cfg \<longrightarrow> (\<exists>m. run_queries cfg qs w = (Inl (RuntimeError m), [])))
   \<and> (startup_ok cfg \<and> \<not> transport_ok cfg \<longrightarrow>
        mails (snd (run_queries cfg qs w)) = []
        \<and> puts (snd (run_queries cfg qs w)) = []
        \<and> (payloads_ok cfg w qs \<and> fetch cfg w = Inr (existing_links, remote_sha) \<longrightarrow>
             fst (run_queries cfg qs w) =
               (if found_results (discovered cfg qs w existing_links) = [] then Inr ()
                else Inl (RuntimeError
                  ''SMTP_HOST, SMTP_USER, SMTP_PASS must be set for SMTP sending.''))))"
proof (intro conjI impI)
  assume "\<not> startup_ok cfg"
  then show "\<exists>m. run_queries cfg qs w = (Inl (RuntimeError m), [])"
    by (simp add: run_queries_not_started)
next
  assume a: "startup_ok cfg \<and> \<not> transport_ok cfg"
  then have d: "delivery cfg w
      = Inl (RuntimeError ''SMTP_HOST, SMTP_USER, SMTP_PASS must be set for SMTP sending.'')"
    by (simp add: delivery_no_transport)
  show "puts (snd (run_queries cfg qs w)) = []"
    using run_puts_cases [of cfg qs w] run_send_fails(2) [of cfg w _ _ qs, OF _ _ _ _ d] a
    by auto
  show "mails (snd (run_queries cfg qs w)) = []"
    using run_mails_cases [of cfg qs w] run_send_fails(3) [of cfg w _ _ qs, OF _ _ _ _ d] a
    by auto
next
  assume a: "startup_ok cfg \<and> \<not> transport_ok cfg"
    and pf: "payloads_ok cfg w qs \<and> fetch cfg w = Inr (existing_links, remote_sha)"
  then have d: "delivery cfg w
      = Inl (RuntimeError ''SMTP_HOST, SMTP_USER, SMTP_PASS must be set for SMTP sending.'')"
    by (simp add: delivery_no_transport)
  from pf have p: "payloads_ok cfg w qs" and f: "fetch cfg w = Inr (existing_links, remote_sha)"
    by simp_all
  show "fst (run_queries cfg qs w) =
          (if found_results (discovered cfg qs w existing_links) = [] then Inr ()
           else Inl (RuntimeError
             ''SMTP_HOST, SMTP_USER, SMTP_PASS must be set for SMTP sending.''))"
  proof (cases "found_results (discovered cfg qs w existing_links) = []")
    case True
    with a f p show ?thesis by (simp add: run_nothing_new)
  next
    case False
    with a f p d show ?thesis by (simp add: run_send_fails(1))
  qed
qed

theorem missing_config_failure_points_witness:
  "\<not> startup_ok cfg_no_sender
   \<and> run_queries cfg_no_sender QUERIES world_e2e
       = (Inl (RuntimeError ''FROM_EMAIL and TO_EMAIL must be set.''), [])
   \<and> startup_ok cfg_no_transport \<and> \<not> transport_ok cfg_no_transport
   \<and> payloads_ok cfg_no_transport world_e2e QUERIES
   \<and> fetch cfg_no_transport world_e2e = Inr ([job1], Some ''v1'')
   \<and> mails (snd (run_queries cfg_no_transport QUERIES world_e2e)) = []
   \<and> puts (snd (run_queries cfg_no_transport QUERIES world_e2e)) = []
   \<and> fst (run_queries cfg_no_transport QUERIES world_e2e)
       = Inl (RuntimeError ''SMTP_HOST, SMTP_USER, SMTP_PASS must be set for SMTP sending.'')
   \<and> fst (run_queries cfg_no_transport QUERIES world_all_seen) = Inr ()"
proof -
  have a: "\<not> startup_ok cfg_no_sender" by code_simp
  have b: "run_queries cfg_no_sender QUERIES world_e2e
       = (Inl (RuntimeError ''FROM_EMAIL and TO_EMAIL must be set.''), [])"
    by code_simp
  have c: "startup_ok cfg_no_transport \<and> \<not> transport_ok cfg_no_transport" by code_simp
  have p: "payloads_ok cfg_no_transport world_e2e QUERIES" by code_simp
  have d: "fetch cfg_no_transport world_e2e = Inr ([job1], Some ''v1'')" by code_simp
  have e: "found_results (discovered cfg_no_transport QUERIES world_e2e [job1]) \<noteq> []"
    by code_simp
  have f: "fst (run_queries cfg_no_transport QUERIES world_all_seen) = Inr ()" by code_simp
  note t = missing_config_failure_points
    [of cfg_no_transport QUERIES world_e2e "[job1]" "Some ''v1''", THEN conjunct2, THEN mp, OF c]
  from t p d e have g: "fst (run_queries cfg_no_transport QUERIES world_e2e)
       = Inl (RuntimeError ''SMTP_HOST, SMTP_USER, SMTP_PASS must be set for SMTP sending.'')"
    by simp
  from a b c p d t [THEN conjunct1] t [THEN conjunct2, THEN conjunct1] g f
  show ?thesis by (intro conjI) simp_all
qed

text \<open>
  With no SendGrid key and no SMTP host, the missing transport credentials surface only
  after the GET and both searches have been made.
\<close>

theorem transport_credentials_counterexample:
  "startup_ok cfg_no_transport
   \<and> \<not> truthy (SENDGRID_API_KEY cfg_no_transport)
   \<and> \<not> truthy (SMTP_HOST cfg_no_transport)
   \<and> run_queries cfg_no_transport QUERIES world_e2e
       = (Inl (RuntimeError ''SMTP_HOST, SMTP_USER, SMTP_PASS must be set for SMTP sending.''),
          [StoreGet ''https://api.github.com/repos/o/r/contents/sent_links.json''
             (Some ''token t''),
           SearchCall ''key'' ''cx'' (QUERIES ! 0) 1,
           SearchCall ''key'' ''cx'' (QUERIES ! 1) 1])"
  by code_simp

text \<open>
  C8. When the content of the fetched file is malformed JSON or a JSON value that is not a
  list, the fetch gives the empty list together with the revision of the file,
  \<^verbatim>\<open>load_sent_links\<close> returns the empty list, and the whole run is the run of the world
  whose file holds the empty list at the same revision: the run does not fail on the
  content.
\<close>

theorem malformed_blob_is_empty:
  assumes "store_get w = Reply 200 (Some obj)"
    and "content obj = BadJSON \<or> content obj = NotAList"
  shows "fetch cfg w = Inr ([], sha obj)
         \<and> fst (load_sent_links cfg w) = Inr []
         \<and> run_queries cfg qs w
             = run_queries cfg qs (w\<lparr>store_get := Reply 200 (Some (obj\<lparr>content := StrList []\<rparr>))\<rparr>)"
proof -
  let ?w = "w\<lparr>store_get := Reply 200 (Some (obj\<lparr>content := StrList []\<rparr>))\<rparr>"
  have f: "fetch cfg w = Inr ([], sha obj)"
    using assms by (auto simp: fetch_def get_repo_file_def read_remote_def)
  have f': "fetch cfg ?w = Inr ([], sha obj)"
    by (simp add: fetch_def get_repo_file_def read_remote_def)
  have l: "fst (load_sent_links cfg w) = Inr []"
    using assms by (auto simp: load_sent_links_def get_repo_file_def)
  have "answer cfg ?w q = answer cfg w q" for q
    by (simp add: answer_def google_custom_search_def)
  then have ql: "queries_loop cfg ?w qs (st, evs) = queries_loop cfg w qs (st, evs)" for st evs
    by (intro queries_loop_cong) simp
  have "run_queries cfg qs ?w = run_queries cfg qs w"
    by (rule run_queries_cong [OF _ ql]) (simp_all add: f f')
  with f l show ?thesis by simp
qed

theorem malformed_blob_is_empty_witness:
  "store_get world_bad_blob = Reply 200 (Some \<lparr>sha = Some ''v1'', content = BadJSON\<rparr>)
   \<and> fetch cfg_sendgrid world_bad_blob = Inr ([], Some ''v1'')
   \<and> fst (load_sent_links cfg_sendgrid world_bad_blob) = Inr []
   \<and> fst (run_queries cfg_sendgrid QUERIES world_bad_blob) = Inr ()
   \<and> puts (snd (run_queries cfg_sendgrid QUERIES world_bad_blob))
       = [([job1, job2], Some ''v1'')]"
proof -
  have a: "store_get world_bad_blob = Reply 200 (Some \<lparr>sha = Some ''v1'', content = BadJSON\<rparr>)"
    by (simp add: world_bad_blob_def)
  have b: "content \<lparr>sha = Some ''v1'', content = BadJSON\<rparr> = BadJSON
           \<or> content \<lparr>sha = Some ''v1'', content = BadJSON\<rparr> = NotAList"
    by simp
  have c: "fst (run_queries cfg_sendgrid QUERIES world_bad_blob) = Inr ()" by code_simp
  have d: "puts (snd (run_queries cfg_sendgrid QUERIES world_bad_blob))
             = [([job1, job2], Some ''v1'')]"
    by code_simp
  note t = malformed_blob_is_empty [OF a b, of cfg_sendgrid QUERIES]
  from t [THEN conjunct1] have e: "fetch cfg_sendgrid world_bad_blob = Inr ([], Some ''v1'')"
    by simp
  from a e t [THEN conjunct2, THEN conjunct1] c d show ?thesis by (intro conjI)
qed

text \<open>
  C9. Whatever the configuration, the queries and the answers of the outside are, every
  list of links that a run writes to the store is sorted in ascending order of strings
  and has no duplicates: it is the sorted listing of a finite set.
\<close>

theorem persisted_list_sorted_distinct:
  "\<forall>p\<in>set (puts (snd (run_queries cfg qs w))).
      sorted (fst p) \<and> distinct (fst p) \<and> (\<exists>S. finite S \<and> fst p = sorted_list_of_set S)"
proof -
  have "\<exists>S. finite S \<and> sorted_list_of_set (sent_set (discovered cfg qs w ex)) = sorted_list_of_set S"
    for ex
    using finite_sent_set [of cfg qs w ex] by blast
  then show ?thesis
    using run_puts_cases [of cfg qs w] by auto
qed

theorem persisted_list_sorted_distinct_witness:
  "puts (snd (run_queries cfg_sendgrid QUERIES world_unsorted))
     = [([job1, job2, ''https://b.org/z''], Some ''v7'')]
   \<and> sorted [job1, job2, ''https://b.org/z'']
   \<and> distinct [job1, job2, ''https://b.org/z'']"
proof -
  have e: "puts (snd (run_queries cfg_sendgrid QUERIES world_unsorted))
             = [([job1, job2, ''https://b.org/z''], Some ''v7'')]"
    by code_simp
  from persisted_list_sorted_distinct [of cfg_sendgrid QUERIES world_unsorted]
  show ?thesis unfolding e by simp
qed

text \<open>
  C10. An item whose link is missing or empty leaves the three loop variables as they
  are; the whole run (result, mails, written list) is the run of the world whose search
  answers have lost these items; every new item has a link that is present and not empty,
  and the empty string is never among the added links.
\<close>

theorem linkless_items_skipped:
  "(\<not> truthy (link it) \<longrightarrow> items_loop q (Obj it # els) st = items_loop q els st)
   \<and> run_queries cfg qs (drop_linkless w) = run_queries cfg qs w
   \<and> (\<forall>r\<in>set (found_results (discovered cfg qs w ex)). truthy (link r))
   \<and> [] \<notin> set (added_links (discovered cfg qs w ex))"
proof -
  have step: "\<not> truthy (link it) \<longrightarrow> items_loop q (Obj it # els) st = items_loop q els st"
    by (cases "link it") auto
  have ql: "queries_loop cfg (drop_linkless w) qs (st', evs) = queries_loop cfg w qs (st', evs)"
    for st' evs
    by (intro queries_loop_cong) (simp add: fun_eq_iff answer_drop_linkless for_items_linkless)
  have fe: "fetch cfg (drop_linkless w) = fetch cfg w"
    by (rule fetch_cong) (simp add: drop_linkless_def)
  have run: "run_queries cfg qs (drop_linkless w) = run_queries cfg qs w"
    by (rule run_queries_cong [OF fe ql]) (simp_all add: drop_linkless_def)
  have ne: "[] \<notin> set (added_links (discovered cfg qs w ex))"
    unfolding discovered_added by (auto simp: set_links_of)
  have tr: "\<forall>r\<in>set (found_results (discovered cfg qs w ex)). truthy (link r)"
  proof
    fix r
    assume "r \<in> set (found_results (discovered cfg qs w ex))"
    then have "link r \<in> set (map link (found_results (discovered cfg qs w ex)))"
      by simp
    then obtain l where "l \<in> set (added_links (discovered cfg qs w ex))" and "link r = Some l"
      unfolding discovered_links by auto
    with ne show "truthy (link r)" by auto
  qed
  from step run tr ne show ?thesis by (intro conjI)
qed

theorem linkless_items_skipped_witness:
  "run_queries cfg_sendgrid QUERIES (drop_linkless world_linkless)
     = run_queries cfg_sendgrid QUERIES world_linkless
   \<and> found_results (discovered cfg_sendgrid QUERIES world_linkless [job1])
       = [\<lparr>title = Some ''X'', snippet = Some ''Y'', link = Some job2, query = QUERIES ! 0\<rparr>]
   \<and> added_links (discovered cfg_sendgrid QUERIES world_linkless [job1]) = [job2]
   \<and> puts (snd (run_queries cfg_sendgrid QUERIES world_linkless)) = [([job1, job2], Some ''v1'')]"
proof -
  have b: "found_results (discovered cfg_sendgrid QUERIES world_linkless [job1])
       = [\<lparr>title = Some ''X'', snippet = Some ''Y'', link = Some job2, query = QUERIES ! 0\<rparr>]"
    by code_simp
  have c: "added_links (discovered cfg_sendgrid QUERIES world_linkless [job1]) = [job2]"
    by code_simp
  have d: "puts (snd (run_queries cfg_sendgrid QUERIES world_linkless))
             = [([job1, job2], Some ''v1'')]"
    by code_simp
  note t = linkless_items_skipped [of _ _ _ _ cfg_sendgrid QUERIES world_linkless]
  from t [THEN conjunct2, THEN conjunct1] b c d show ?thesis by (intro conjI)
qed

end
